theory Spec2Isabelle
  imports Complex_Main
begin

section \<open>Python and numpy values\<close>

text \<open>
  The exceptions the modelled functions can raise. \<open>PlotError\<close> is the plain
  \<^verbatim>\<open>Exception('Dimension is less than 2, cannot plot')\<close> of \<^verbatim>\<open>tpgmm.py\<close>.
  Floating-point numbers are idealised as reals; a one-dimensional array is a list of
  reals, a two-dimensional array the list of its rows.
\<close>

datatype error =
  IndexError | KeyError | ValueError | TypeError | ZeroDivisionError | LinAlgError | PlotError

type_synonym vec = "real list"
type_synonym mat = "real list list"

definition ebind :: "error + 'a \<Rightarrow> ('a \<Rightarrow> error + 'b) \<Rightarrow> error + 'b" where
  "ebind m f = (case m of Inl e \<Rightarrow> Inl e | Inr a \<Rightarrow> f a)"

text \<open>A \<^verbatim>\<open>for\<close> loop that appends one value per element and stops at the first exception.\<close>

primrec for_append :: "('a \<Rightarrow> error + 'b) \<Rightarrow> 'a list \<Rightarrow> error + 'b list" where
  "for_append f [] = Inr []"
| "for_append f (x # xs) =
     (case f x of Inl e \<Rightarrow> Inl e
      | Inr y \<Rightarrow> (case for_append f xs of Inl e \<Rightarrow> Inl e | Inr ys \<Rightarrow> Inr (y # ys)))"

text \<open>
  Python indexing \<^verbatim>\<open>xs[i]\<close>: an index in \<open>[0, len)\<close> reads from the front, one in
  \<open>[-len, 0)\<close> from the back, any other raises \<^verbatim>\<open>IndexError\<close>.
\<close>

definition py_get :: "'a list \<Rightarrow> int \<Rightarrow> error + 'a" where
  "py_get xs i =
     (if 0 \<le> i \<and> i < int (length xs) then Inr (xs ! nat i)
      else if - int (length xs) \<le> i \<and> i < 0 then Inr (xs ! nat (int (length xs) + i))
      else Inl IndexError)"

text \<open>Elementwise arithmetic on rows of one array (they share their length).\<close>

definition vsub :: "vec \<Rightarrow> vec \<Rightarrow> vec" where
  "vsub a b = map2 (-) a b"

definition vdiv :: "vec \<Rightarrow> real \<Rightarrow> vec" where
  "vdiv a c = map (\<lambda>x. x / c) a"

section \<open>tpgmm.py: finite differences\<close>

text \<open>
  \<^verbatim>\<open>
  def get_dx(demos_x):
      demos_dx = []
      for i in range(len(demos_x)):
          demo_dx = []
          for j in range(len(demos_x[i])):
              if 0 < j < len(demos_x[i]) - 1:
                  dx = (demos_x[i][j + 1] - demos_x[i][j - 1]) / 2
              elif j == len(demos_x[i]) - 1:
                  dx = demos_x[i][j] - demos_x[i][j - 1]
              else:
                  dx = demos_x[i][j + 1] - demos_x[i][j]
              dx = dx / 0.01
              demo_dx.append(dx)
          demos_dx.append(np.array(demo_dx))
      return demos_dx
  \<close>
  \<open>dx_at x j\<close> is the body of the inner loop for the demonstration \<open>x\<close>.
\<close>

definition dx_at :: "vec list \<Rightarrow> nat \<Rightarrow> error + vec" where
  "dx_at x j =
     ebind
       (if 0 < int j \<and> int j < int (length x) - 1 then
          ebind (py_get x (int j + 1)) (\<lambda>a.
          ebind (py_get x (int j - 1)) (\<lambda>b. Inr (vdiv (vsub a b) 2)))
        else if int j = int (length x) - 1 then
          ebind (py_get x (int j)) (\<lambda>a.
          ebind (py_get x (int j - 1)) (\<lambda>b. Inr (vsub a b)))
        else
          ebind (py_get x (int j + 1)) (\<lambda>a.
          ebind (py_get x (int j)) (\<lambda>b. Inr (vsub a b))))
       (\<lambda>dx. Inr (vdiv dx (1 / 100)))"

definition get_dx_demo :: "vec list \<Rightarrow> error + vec list" where
  "get_dx_demo x = for_append (dx_at x) [0..<length x]"

definition get_dx :: "vec list list \<Rightarrow> error + vec list list" where
  "get_dx demos_x = for_append get_dx_demo demos_x"

section \<open>numpy arrays\<close>

text \<open>
  A two-dimensional array is the list of its rows, a column vector (shape \<open>(k, 1)\<close>) the
  list of its entries. An array with no row carries no column count in this model, so
  the theorems below speak of arrays with at least one row and one column.
  Slices \<^verbatim>\<open>a:b\<close> are clamped to the length as Python does.
\<close>

definition py_slice :: "int \<Rightarrow> int \<Rightarrow> nat \<Rightarrow> nat \<times> nat" where
  "py_slice a b len =
     (let clamp = (\<lambda>i. if i < 0 then nat (max 0 (int len + i)) else min (nat i) len);
          lo = clamp a; hi = clamp b
      in (lo, max lo hi))"

definition py_take :: "int \<Rightarrow> 'a list \<Rightarrow> 'a list" where
  "py_take n xs = (case py_slice 0 n (length xs) of (lo, hi) \<Rightarrow> take (hi - lo) (drop lo xs))"

definition ncols :: "mat \<Rightarrow> nat" where
  "ncols M = (case M of [] \<Rightarrow> 0 | r # _ \<Rightarrow> length r)"

definition is_mat :: "nat \<Rightarrow> nat \<Rightarrow> mat \<Rightarrow> bool" where
  "is_mat r c M \<longleftrightarrow> length M = r \<and> list_all (\<lambda>row. length row = c) M"

definition np_zeros :: "int \<Rightarrow> int \<Rightarrow> error + mat" where
  "np_zeros r c =
     (if r < 0 \<or> c < 0 then Inl ValueError else Inr (replicate (nat r) (replicate (nat c) 0)))"

definition np_ones :: "int \<Rightarrow> int \<Rightarrow> error + mat" where
  "np_ones r c =
     (if r < 0 \<or> c < 0 then Inl ValueError else Inr (replicate (nat r) (replicate (nat c) 1)))"

definition eye :: "nat \<Rightarrow> mat" where
  "eye n = map (\<lambda>i. map (\<lambda>j. if i = j then 1 else 0) [0..<n]) [0..<n]"

definition np_identity :: "int \<Rightarrow> error + mat" where
  "np_identity n = (if n < 0 then Inl ValueError else Inr (eye (nat n)))"

definition mscale :: "mat \<Rightarrow> real \<Rightarrow> mat" where
  "mscale M c = map (map (\<lambda>x. x * c)) M"

definition dot :: "vec \<Rightarrow> vec \<Rightarrow> real" where
  "dot u v = sum_list (map2 (*) u v)"

definition column :: "mat \<Rightarrow> nat \<Rightarrow> vec" where
  "column M j = map (\<lambda>row. row ! j) M"

definition transpose_m :: "mat \<Rightarrow> mat" where
  "transpose_m M = map (column M) [0..<ncols M]"

definition vec_mat :: "vec \<Rightarrow> mat \<Rightarrow> vec" where
  "vec_mat r Y = map (\<lambda>j. dot r (column Y j)) [0..<ncols Y]"

text \<open>\<^verbatim>\<open>X @ Y\<close> and \<^verbatim>\<open>np.dot(X, Y)\<close> on two-dimensional arrays.\<close>

definition matmul :: "mat \<Rightarrow> mat \<Rightarrow> error + mat" where
  "matmul X Y =
     (if ncols X = length Y then Inr (map (\<lambda>r. vec_mat r Y) X) else Inl ValueError)"

text \<open>\<^verbatim>\<open>X @ v\<close> for a column vector \<open>v\<close>.\<close>

definition mat_vec :: "mat \<Rightarrow> vec \<Rightarrow> error + vec" where
  "mat_vec X v =
     (if ncols X = length v then Inr (map (\<lambda>r. dot r v) X) else Inl ValueError)"

text \<open>
  Elementwise \<^verbatim>\<open>+\<close> and \<^verbatim>\<open>-\<close> of column vectors: equal lengths, or one of length one
  that numpy broadcasts; any other pair is a \<^verbatim>\<open>ValueError\<close>.
\<close>

definition broadcast2 :: "(real \<Rightarrow> real \<Rightarrow> real) \<Rightarrow> vec \<Rightarrow> vec \<Rightarrow> error + vec" where
  "broadcast2 f u v =
     (if length u = length v then Inr (map2 f u v)
      else if length u = 1 then Inr (map (f (u ! 0)) v)
      else if length v = 1 then Inr (map (\<lambda>a. f a (v ! 0)) u)
      else Inl ValueError)"

text \<open>
  Elementwise \<^verbatim>\<open>+\<close> and \<^verbatim>\<open>-\<close> of two-dimensional arrays with numpy's broadcasting: along
  each axis the two sizes are equal or one of them is one, and the array of size one is
  repeated; any other pair of shapes is a \<^verbatim>\<open>ValueError\<close>.
\<close>

definition bdim :: "nat \<Rightarrow> nat \<Rightarrow> nat option" where
  "bdim a b = (if a = b then Some a else if a = 1 then Some b else if b = 1 then Some a else None)"

definition stretch :: "nat \<Rightarrow> 'a list \<Rightarrow> 'a list" where
  "stretch k xs = (if length xs = k then xs else replicate k (xs ! 0))"

definition broadcast_m :: "(real \<Rightarrow> real \<Rightarrow> real) \<Rightarrow> mat \<Rightarrow> mat \<Rightarrow> error + mat" where
  "broadcast_m f X Y =
     (case (bdim (length X) (length Y), bdim (ncols X) (ncols Y)) of
        (Some r, Some c) \<Rightarrow>
          Inr (map2 (map2 f) (map (stretch c) (stretch r X)) (map (stretch c) (stretch r Y)))
      | _ \<Rightarrow> Inl ValueError)"

text \<open>
  An array argument whose number of axes the code does not fix is one-dimensional or
  two-dimensional; in a broadcast a one-dimensional array of \<open>L\<close> entries counts as
  one row of \<open>L\<close> entries.
\<close>

datatype ndarray = Arr1 vec | Arr2 mat

definition as2d :: "ndarray \<Rightarrow> mat" where
  "as2d a = (case a of Arr1 v \<Rightarrow> [v] | Arr2 M \<Rightarrow> M)"

text \<open>\<^verbatim>\<open>np.hstack((X, Y))\<close>: the rows side by side.\<close>

definition hstack :: "mat \<Rightarrow> mat \<Rightarrow> error + mat" where
  "hstack X Y = (if length X = length Y then Inr (map2 (@) X Y) else Inl ValueError)"

text \<open>
  \<^verbatim>\<open>np.kron(X, Y)\<close> of two-dimensional arrays: block \<open>(i, j)\<close> of the result is
  \<open>X[i][j] * Y\<close>.
\<close>

definition kron :: "mat \<Rightarrow> mat \<Rightarrow> mat" where
  "kron X Y = concat (map (\<lambda>rx. map (\<lambda>ry. concat (map (\<lambda>a. map (\<lambda>b. a * b) ry) rx)) Y) X)"

text \<open>
  \<^verbatim>\<open>X[r0:r1, c0:c1] = V\<close> for slice bounds already clamped: \<open>V\<close> must have the shape of
  the target block (numpy would also broadcast a \<open>V\<close> with a dimension of size one; no
  assignment of the modelled code with well-formed parameters does).
\<close>

definition set_block :: "nat \<times> nat \<Rightarrow> nat \<times> nat \<Rightarrow> mat \<Rightarrow> mat \<Rightarrow> error + mat" where
  "set_block rs cs X V =
     (case (rs, cs) of ((r0, r1), (c0, c1)) \<Rightarrow>
        if is_mat (r1 - r0) (c1 - c0) V then
          Inr (take r0 X @
               map2 (\<lambda>row v. take c0 row @ v @ drop c1 row) (take (r1 - r0) (drop r0 X)) V @
               drop r1 X)
        else Inl ValueError)"

text \<open>
  \<^verbatim>\<open>a.reshape((-1, k))\<close> cuts the entries of \<open>a\<close>, in row-major order, into consecutive
  rows of \<open>k\<close>; \<open>reshape_rows\<close> takes the entries as a list (\<open>concat\<close> of the rows of a
  two-dimensional array).
\<close>

definition reshape_rows :: "int \<Rightarrow> vec \<Rightarrow> error + vec list" where
  "reshape_rows k v =
     (if k \<le> 0 \<or> length v mod nat k \<noteq> 0 then Inl ValueError
      else Inr (map (\<lambda>i. take (nat k) (drop (i * nat k) v)) [0..<length v div nat k]))"

text \<open>
  \<^verbatim>\<open>a.reshape((k, 1))\<close>: the column of the entries of \<open>a\<close>, which must be \<open>k\<close> in number.
  The result does not depend on the shape \<open>a\<close> had, so \<open>a\<close> is given as its entries.
\<close>

definition reshape_col :: "int \<Rightarrow> vec \<Rightarrow> error + mat" where
  "reshape_col k v = (if int (length v) = k then Inr (map (\<lambda>a. [a]) v) else Inl ValueError)"

text \<open>A loop that updates a state and stops at the first exception.\<close>

primrec for_state :: "('i \<Rightarrow> 's \<Rightarrow> error + 's) \<Rightarrow> 'i list \<Rightarrow> 's \<Rightarrow> error + 's" where
  "for_state body [] s = Inr s"
| "for_state body (i # is) s =
     (case body i s of Inl e \<Rightarrow> Inl e | Inr s' \<Rightarrow> for_state body is s')"

text \<open>
  \<^verbatim>\<open>np.linalg.inv\<close> raises \<^verbatim>\<open>LinAlgError\<close> on an array that is not square and on a
  singular matrix, and returns the inverse of every other. Over the reals the inverse
  is unique, so the order in which LAPACK picks its pivots does not show in the
  result; the model is Gauss-Jordan elimination on the rows of \<open>[X | I]\<close>. Step \<open>j\<close>
  takes the first row from \<open>j\<close> on with a non-zero entry in column \<open>j\<close>, exchanges it
  with row \<open>j\<close>, scales it to a leading one and clears column \<open>j\<close> in every other row;
  a column without such a row makes the matrix singular.
\<close>

definition pivot_row :: "nat \<Rightarrow> mat \<Rightarrow> nat option" where
  "pivot_row j W = find (\<lambda>p. W ! p ! j \<noteq> 0) [j..<length W]"

definition eliminate :: "nat \<Rightarrow> mat \<Rightarrow> error + mat" where
  "eliminate j W =
     (case pivot_row j W of
        None \<Rightarrow> Inl LinAlgError
      | Some p \<Rightarrow>
          let W1 = W[p := W ! j, j := W ! p];
              row = map (\<lambda>a. a / W ! p ! j) (W ! p)
          in Inr (map (\<lambda>i. if i = j then row
                            else map2 (\<lambda>a b. a - W1 ! i ! j * b) (W1 ! i) row)
                    [0..<length W]))"

definition linalg_inv :: "mat \<Rightarrow> error + mat" where
  "linalg_inv X =
     (if \<not> is_mat (length X) (length X) X then Inl LinAlgError
      else
        ebind (for_state eliminate [0..<length X] (map2 (@) X (eye (length X)))) (\<lambda>W.
        Inr (map (drop (length X)) W)))"

section \<open>The configuration dictionary\<close>

datatype pval = IntV int | FloatV real | StrV string

type_synonym param = "string \<rightharpoonup> pval"

text \<open>
  \<^verbatim>\<open>param[k]\<close> raises \<^verbatim>\<open>KeyError\<close> on a missing key. Sizes and counts are Python
  ints (any other value is a \<^verbatim>\<open>TypeError\<close> in the arithmetic or in numpy's shape
  arguments); the time step is a number.
\<close>

definition param_get :: "param \<Rightarrow> string \<Rightarrow> error + pval" where
  "param_get p k = (case p k of None \<Rightarrow> Inl KeyError | Some v \<Rightarrow> Inr v)"

definition param_int :: "param \<Rightarrow> string \<Rightarrow> error + int" where
  "param_int p k =
     ebind (param_get p k) (\<lambda>v. case v of IntV n \<Rightarrow> Inr n | _ \<Rightarrow> Inl TypeError)"

definition param_real :: "param \<Rightarrow> string \<Rightarrow> error + real" where
  "param_real p k =
     ebind (param_get p k)
       (\<lambda>v. case v of IntV n \<Rightarrow> Inr (of_int n) | FloatV r \<Rightarrow> Inr r | StrV _ \<Rightarrow> Inl TypeError)"

section \<open>lqt\_cp.py: control primitives\<close>

text \<open>
  \<^verbatim>\<open>
  def define_control_primitive(param):
      functions = {
          "PIECEWEISE": rf.primitive.build_phi_piecewise,
          "RBF": rf.primitive.build_phi_rbf,
          "BERNSTEIN": rf.primitive.build_phi_bernstein,
          "FOURIER": rf.primitive.build_phi_fourier
      }
      phi = functions[param["basisName"]](param["nbData"] - 1, param["nbFct"])
      PSI = np.kron(phi, np.identity(param["nbVarPos"]))
      return PSI, phi
  \<close>
  The four builders of \<^verbatim>\<open>rf.primitive\<close> are not among the sources; they are the fields
  of the parameter \<open>prim\<close>. Python evaluates the callee \<^verbatim>\<open>functions[...]\<close> before the
  arguments of the call. The dictionary is \<open>functions_dict\<close> (\<open>functions\<close> is a keyword).
\<close>

type_synonym builder = "int \<Rightarrow> int \<Rightarrow> error + mat"

record primitive =
  phi_piecewise :: builder
  phi_rbf :: builder
  phi_bernstein :: builder
  phi_fourier :: builder

definition functions_dict :: "primitive \<Rightarrow> pval \<rightharpoonup> builder" where
  "functions_dict prim =
     [StrV ''PIECEWEISE'' \<mapsto> phi_piecewise prim,
      StrV ''RBF'' \<mapsto> phi_rbf prim,
      StrV ''BERNSTEIN'' \<mapsto> phi_bernstein prim,
      StrV ''FOURIER'' \<mapsto> phi_fourier prim]"

definition define_control_primitive :: "primitive \<Rightarrow> param \<Rightarrow> error + mat \<times> mat" where
  "define_control_primitive prim param =
     ebind (param_get param ''basisName'') (\<lambda>name.
     case functions_dict prim name of
       None \<Rightarrow> Inl KeyError
     | Some build \<Rightarrow>
         ebind (param_int param ''nbData'') (\<lambda>nbData.
         ebind (param_int param ''nbFct'') (\<lambda>nbFct.
         ebind (build (nbData - 1) nbFct) (\<lambda>phi.
         ebind (param_int param ''nbVarPos'') (\<lambda>nbVarPos.
         ebind (np_identity nbVarPos) (\<lambda>I.
         Inr (kron phi I, phi)))))))"

section \<open>lqt\_cp.py: the integrator and its transfer matrices\<close>

text \<open>
  \<^verbatim>\<open>
  def set_dynamical_system(param: Dict):
      nb_var = param["nb_var"]
      A = np.identity(nb_var)
      if param["nbDeriv"] == 2:
          A[:param["nbVarPos"], -param["nbVarPos"]:] = np.identity(param["nbVarPos"]) * param["dt"]

      B = np.zeros((nb_var, param["nbVarPos"]))
      derivatives = [param["dt"], param["dt"] ** 2 / 2][:param["nbDeriv"]]
      for i in range(param["nbDeriv"]):
          B[i * param["nbVarPos"]:(i + 1) * param["nbVarPos"]] = np.identity(param["nbVarPos"]) * derivatives[::-1][i]

      # Build Sx and Su transfer matrices
      Su = np.zeros((nb_var * param["nbData"], param["nbVarPos"] * (param["nbData"] - 1)))
      Sx = np.kron(np.ones((param["nbData"], 1)), np.eye(nb_var, nb_var))

      M = B
      for i in range(1, param["nbData"]):
          Sx[i * nb_var:param["nbData"] * nb_var, :] = np.dot(Sx[i * nb_var:param["nbData"] * nb_var, :], A)
          Su[nb_var * i:nb_var * i + M.shape[0], 0:M.shape[1]] = M
          M = np.hstack((np.dot(A, M), B))  # [0,nb_state_var-1]
      return Su, Sx
  \<close>
  \<open>dynamics\<close> is the first half (the matrices \<open>A\<close> and \<open>B\<close>, local to the function),
  \<open>transfer\<close> the second.
\<close>

definition dynamics :: "param \<Rightarrow> error + mat \<times> mat" where
  "dynamics param =
     ebind (param_int param ''nb_var'') (\<lambda>nb_var.
     ebind (np_identity nb_var) (\<lambda>A0.
     ebind (param_int param ''nbDeriv'') (\<lambda>nbDeriv.
     ebind (if nbDeriv = 2 then
              ebind (param_int param ''nbVarPos'') (\<lambda>n.
              ebind (np_identity n) (\<lambda>I.
              ebind (param_real param ''dt'') (\<lambda>dt.
              set_block (py_slice 0 n (length A0)) (py_slice (- n) (int (length A0)) (length A0))
                A0 (mscale I dt))))
            else Inr A0) (\<lambda>A.
     ebind (param_int param ''nbVarPos'') (\<lambda>n.
     ebind (np_zeros nb_var n) (\<lambda>B0.
     ebind (param_real param ''dt'') (\<lambda>dt.
     let derivatives = py_take nbDeriv [dt, dt ^ 2 / 2] in
     ebind (for_state (\<lambda>i B.
              ebind (np_identity n) (\<lambda>I.
              ebind (py_get (rev derivatives) (int i)) (\<lambda>d.
              set_block (py_slice (int i * n) ((int i + 1) * n) (length B)) (0, nat n)
                B (mscale I d))))
            [0..<nat nbDeriv] B0) (\<lambda>B.
     Inr (A, B)))))))))"

definition transfer_step ::
  "int \<Rightarrow> int \<Rightarrow> int \<Rightarrow> mat \<Rightarrow> mat \<Rightarrow> nat \<Rightarrow> mat \<times> mat \<times> mat \<Rightarrow> error + mat \<times> mat \<times> mat" where
  "transfer_step nb_var nbData nbVarPos A B i s =
     (case s of (Su, Sx, M) \<Rightarrow>
        let rs = py_slice (int i * nb_var) (nbData * nb_var) (length Sx) in
        ebind (matmul (take (snd rs - fst rs) (drop (fst rs) Sx)) A) (\<lambda>P.
        ebind (set_block rs (0, nat nb_var) Sx P) (\<lambda>Sx'.
        ebind (set_block
                 (py_slice (nb_var * int i) (nb_var * int i + int (length M)) (length Su))
                 (py_slice 0 (int (ncols M)) (nat (nbVarPos * (nbData - 1))))
                 Su M) (\<lambda>Su'.
        ebind (matmul A M) (\<lambda>AM.
        ebind (hstack AM B) (\<lambda>M'.
        Inr (Su', Sx', M')))))))"

definition transfer :: "param \<Rightarrow> mat \<Rightarrow> mat \<Rightarrow> error + mat \<times> mat" where
  "transfer param A B =
     ebind (param_int param ''nb_var'') (\<lambda>nb_var.
     ebind (param_int param ''nbData'') (\<lambda>nbData.
     ebind (param_int param ''nbVarPos'') (\<lambda>nbVarPos.
     ebind (np_zeros (nb_var * nbData) (nbVarPos * (nbData - 1))) (\<lambda>Su0.
     ebind (np_ones nbData 1) (\<lambda>ones.
     ebind (np_identity nb_var) (\<lambda>I.
     ebind (for_state (transfer_step nb_var nbData nbVarPos A B) [1..<nat nbData]
              (Su0, kron ones I, B)) (\<lambda>s.
     case s of (Su, Sx, M) \<Rightarrow> Inr (Su, Sx))))))))"

definition set_dynamical_system :: "param \<Rightarrow> error + mat \<times> mat" where
  "set_dynamical_system param =
     ebind (dynamics param) (\<lambda>AB. case AB of (A, B) \<Rightarrow> transfer param A B)"

section \<open>lqt\_cp.py: the batch solve\<close>

text \<open>
  \<^verbatim>\<open>
  def get_u_x(param, start_pose, muQ, Q, R, Su, Sx, PSI):
      x0 = start_pose.reshape((param['nb_var'], 1))
      w_hat = np.linalg.inv(PSI.T @ Su.T @ Q @ Su @ PSI + PSI.T @ R @ PSI) @ PSI.T @ Su.T @ Q @ (muQ - Sx @ x0)
      u_hat = PSI @ w_hat
      x_hat = (Sx @ x0 + Su @ u_hat).reshape((-1, param["nb_var"]))
      u_hat = u_hat.reshape((-1, param["nbVarPos"]))
      return u_hat, x_hat
  \<close>
  The products associate to the left, as \<^verbatim>\<open>@\<close> does. \<open>Q\<close>, \<open>R\<close>, \<open>Su\<close>, \<open>Sx\<close> and \<open>PSI\<close> are
  two-dimensional arrays; \<open>muQ\<close> enters a broadcast only, as a column or as any other
  array. \<open>normal_matrix\<close> is the argument of \<^verbatim>\<open>np.linalg.inv\<close>.
\<close>

definition normal_matrix :: "mat \<Rightarrow> mat \<Rightarrow> mat \<Rightarrow> mat \<Rightarrow> error + mat" where
  "normal_matrix PSI Su Q R =
     ebind (matmul (transpose_m PSI) (transpose_m Su)) (\<lambda>a1.
     ebind (matmul a1 Q) (\<lambda>a2.
     ebind (matmul a2 Su) (\<lambda>a3.
     ebind (matmul a3 PSI) (\<lambda>a4.
     ebind (matmul (transpose_m PSI) R) (\<lambda>b1.
     ebind (matmul b1 PSI) (\<lambda>b2.
     broadcast_m (+) a4 b2))))))"

definition get_u_x ::
  "param \<Rightarrow> vec \<Rightarrow> ndarray \<Rightarrow> mat \<Rightarrow> mat \<Rightarrow> mat \<Rightarrow> mat \<Rightarrow> mat \<Rightarrow> error + mat \<times> mat" where
  "get_u_x param start_pose muQ Q R Su Sx PSI =
     ebind (param_int param ''nb_var'') (\<lambda>nb_var.
     ebind (reshape_col nb_var start_pose) (\<lambda>x0.
     ebind (normal_matrix PSI Su Q R) (\<lambda>N.
     ebind (linalg_inv N) (\<lambda>Ninv.
     ebind (matmul Ninv (transpose_m PSI)) (\<lambda>c1.
     ebind (matmul c1 (transpose_m Su)) (\<lambda>c2.
     ebind (matmul c2 Q) (\<lambda>c3.
     ebind (matmul Sx x0) (\<lambda>Sx_x0.
     ebind (broadcast_m (-) (as2d muQ) Sx_x0) (\<lambda>d.
     ebind (matmul c3 d) (\<lambda>w_hat.
     ebind (matmul PSI w_hat) (\<lambda>u_hat.
     ebind (matmul Sx x0) (\<lambda>Sx_x0.
     ebind (matmul Su u_hat) (\<lambda>Su_u.
     ebind (broadcast_m (+) Sx_x0 Su_u) (\<lambda>x.
     ebind (param_int param ''nb_var'') (\<lambda>nb_var.
     ebind (reshape_rows nb_var (concat x)) (\<lambda>x_hat.
     ebind (param_int param ''nbVarPos'') (\<lambda>nbVarPos.
     ebind (reshape_rows nbVarPos (concat u_hat)) (\<lambda>u_hat.
     Inr (u_hat, x_hat)))))))))))))))))))"

section \<open>lqt\_cp.py: the pipeline\<close>

text \<open>
  \<^verbatim>\<open>
  def uni_cp(param: Dict, data: np.ndarray):
      print(...)
      data = data[:, :param['nbVarPos']]

      start_pose = np.zeros((param['nb_var'],), dtype=np.float32)
      start_pose[:param['nbVarPos']] = data[0]

      via_point_pose = data[1:]
      param['nbPoints'] = len(via_point_pose)

      via_point, muQ, Q, R, idx_slices, tl = rf.lqt.get_matrices(param, via_point_pose)
      PSI, phi = define_control_primitive(param)
      Su, Sx = set_dynamical_system(param)
      u_hat, x_hat = get_u_x(param, start_pose, muQ, Q, R, Su, Sx, PSI)

      rf.lqt.plot_3d_uni([x_hat], muQ, idx_slices)
      return u_hat, x_hat, muQ, idx_slices
  \<close>
  \<^verbatim>\<open>param\<close> is the caller's dictionary: the function returns its outcome together with
  the dictionary as the call leaves it, also when the call raises. The helpers
  \<^verbatim>\<open>rf.lqt.get_matrices\<close>, \<^verbatim>\<open>rf.lqt.plot_3d_uni\<close> and \<^verbatim>\<open>rf.primitive\<close> are not among the
  sources; they are the fields of \<open>env\<close>, read-only in \<^verbatim>\<open>param\<close>.
\<close>

type_synonym matrices = "vec list \<times> ndarray \<times> mat \<times> mat \<times> (nat \<times> nat) list \<times> int list"

record lqt_env =
  rf_primitive :: primitive
  get_matrices :: "param \<Rightarrow> mat \<Rightarrow> error + matrices"
  plot_3d_uni :: "vec list list \<Rightarrow> ndarray \<Rightarrow> (nat \<times> nat) list \<Rightarrow> error + unit"

text \<open>
  \<^verbatim>\<open>start_pose[:n] = row\<close> on a one-dimensional array: the row has the length of the
  slice, or length one (broadcast).
\<close>

definition set_prefix :: "int \<Rightarrow> vec \<Rightarrow> vec \<Rightarrow> error + vec" where
  "set_prefix n v row =
     (let k = length (py_take n v) in
      if length row = k then Inr (row @ drop k v)
      else if length row = 1 then Inr (replicate k (row ! 0) @ drop k v)
      else Inl ValueError)"

text \<open>Lines 59 to 65: the start pose, the via-points and the write to \<^verbatim>\<open>param\<close>.\<close>

definition uni_cp_setup :: "param \<Rightarrow> mat \<Rightarrow> error + vec \<times> mat \<times> param" where
  "uni_cp_setup param data =
     ebind (param_int param ''nbVarPos'') (\<lambda>nbVarPos.
     let data1 = map (py_take nbVarPos) data in
     ebind (param_int param ''nb_var'') (\<lambda>nb_var.
     ebind (if nb_var < 0 then Inl ValueError else Inr (replicate (nat nb_var) 0)) (\<lambda>zeros.
     ebind (py_get data1 0) (\<lambda>row.
     ebind (set_prefix nbVarPos zeros row) (\<lambda>start_pose.
     let via_point_pose = drop 1 data1 in
     Inr (start_pose, via_point_pose,
          param(''nbPoints'' \<mapsto> IntV (int (length via_point_pose)))))))))"

definition uni_cp_solve ::
  "lqt_env \<Rightarrow> param \<Rightarrow> vec \<Rightarrow> mat \<Rightarrow> error + mat \<times> mat \<times> ndarray \<times> (nat \<times> nat) list" where
  "uni_cp_solve env param start_pose via_point_pose =
     ebind (get_matrices env param via_point_pose) (\<lambda>m.
     case m of (via_point, muQ, Q, R, idx_slices, tl_idx) \<Rightarrow>
     ebind (define_control_primitive (rf_primitive env) param) (\<lambda>pp.
     case pp of (PSI, phi) \<Rightarrow>
     ebind (set_dynamical_system param) (\<lambda>ss.
     case ss of (Su, Sx) \<Rightarrow>
     ebind (get_u_x param start_pose muQ Q R Su Sx PSI) (\<lambda>ux.
     case ux of (u_hat, x_hat) \<Rightarrow>
     ebind (plot_3d_uni env [x_hat] muQ idx_slices) (\<lambda>_.
     Inr (u_hat, x_hat, muQ, idx_slices))))))"

definition uni_cp ::
  "lqt_env \<Rightarrow> param \<Rightarrow> mat \<Rightarrow>
     (error + mat \<times> mat \<times> ndarray \<times> (nat \<times> nat) list) \<times> param" where
  "uni_cp env param data =
     (case uni_cp_setup param data of
        Inl e \<Rightarrow> (Inl e, param)
      | Inr (start_pose, via_point_pose, param') \<Rightarrow>
          (uni_cp_solve env param' start_pose via_point_pose, param'))"

section \<open>The piecewise-constant basis\<close>

text \<open>
  Modelled from the spec: \<^verbatim>\<open>rf.primitive.build_phi_piecewise\<close> is not among the sources.
  The spec names a piecewise-constant basis of \<open>C\<close> basis functions for a control
  sequence of \<open>T - 1\<close> steps: the steps are cut into \<open>C\<close> consecutive segments of
  \<open>ceil((T - 1) / C)\<close> steps, and basis function \<open>c\<close> is one on segment \<open>c\<close> and zero
  elsewhere.
\<close>

definition build_phi_piecewise :: builder where
  "build_phi_piecewise nb_data nb_fct =
     (if nb_fct = 0 then Inl ZeroDivisionError
      else
        ebind (np_identity nb_fct) (\<lambda>I.
        ebind (np_ones \<lceil>real_of_int nb_data / real_of_int nb_fct\<rceil> 1) (\<lambda>segment.
        Inr (py_take nb_data (kron I segment)))))"

section \<open>A worked example\<close>

text \<open>
  A horizon of three steps for one position coordinate with its velocity, a time step
  of one and two piecewise basis functions. The helper environment returns the tracking
  problem \<open>example_matrices\<close> (a target position of 1 at the second step and of 2 at
  the third, unit precision and unit control cost).
\<close>

definition example_param :: param where
  "example_param =
     [''nbData'' \<mapsto> IntV 3, ''nbVarPos'' \<mapsto> IntV 1, ''nbDeriv'' \<mapsto> IntV 2,
      ''nbFct'' \<mapsto> IntV 2, ''basisName'' \<mapsto> StrV ''PIECEWEISE'', ''dt'' \<mapsto> FloatV 1,
      ''rfactor'' \<mapsto> FloatV 1, ''nb_var'' \<mapsto> IntV 2]"

definition example_data :: mat where
  "example_data = [[0], [1], [2]]"

definition example_matrices :: matrices where
  "example_matrices =
     ([[1, 0], [2, 0]], Arr2 [[0], [0], [1], [0], [2], [0]], eye 6, eye 2, [(2, 4), (4, 6)], [1, 2])"

definition example_env :: lqt_env where
  "example_env =
     \<lparr>rf_primitive =
        \<lparr>phi_piecewise = build_phi_piecewise,
         phi_rbf = (\<lambda>_ _. Inl ValueError),
         phi_bernstein = (\<lambda>_ _. Inl ValueError),
         phi_fourier = (\<lambda>_ _. Inl ValueError)\<rparr>,
      get_matrices = (\<lambda>_ _. Inr example_matrices),
      plot_3d_uni = (\<lambda>_ _ _. Inr ())\<rparr>"

section \<open>The blocks of the transfer matrices\<close>

text \<open>
  Notions for the loop of \<open>set_dynamical_system\<close>. \<open>input_block A B t\<close> is the block
  \<open>[A^(t-1) B, ..., A B, B]\<close> the loop holds in \<^verbatim>\<open>M\<close> before iteration \<open>t\<close> (with no
  column for \<open>t = 0\<close>); \<open>row_power A t r\<close> is the row vector \<open>r\<close> multiplied \<open>t\<close> times by
  \<open>A\<close>. \<open>transfer_inv\<close> is the state of the loop before iteration \<open>i\<close>: the blocks of
  \<^verbatim>\<open>Sx\<close> up to \<open>i - 1\<close> hold their final powers of \<open>A\<close> and the later ones the power
  \<open>i - 1\<close>; the blocks of \<^verbatim>\<open>Su\<close> before \<open>i\<close> are filled and the later ones zero.
\<close>

primrec input_block :: "mat \<Rightarrow> mat \<Rightarrow> nat \<Rightarrow> mat" where
  "input_block A B 0 = map (\<lambda>_. []) A"
| "input_block A B (Suc t) = map2 (@) (map (\<lambda>r. vec_mat r (input_block A B t)) A) B"

definition row_power :: "mat \<Rightarrow> nat \<Rightarrow> vec \<Rightarrow> vec" where
  "row_power A t r = ((\<lambda>row. vec_mat row A) ^^ t) r"

definition transfer_inv ::
  "nat \<Rightarrow> nat \<Rightarrow> nat \<Rightarrow> mat \<Rightarrow> mat \<Rightarrow> nat \<Rightarrow> mat \<times> mat \<times> mat \<Rightarrow> bool" where
  "transfer_inv nv T n A B i s \<longleftrightarrow>
     (case s of (Su, Sx, M) \<Rightarrow>
        M = input_block A B i \<and> length Sx = T * nv \<and> length Su = T * nv \<and>
        (\<forall>r<T * nv. Sx ! r = row_power A (min (r div nv) (i - 1)) (eye nv ! (r mod nv))) \<and>
        (\<forall>r<T * nv. Su ! r =
           (if r div nv < i
            then input_block A B (r div nv) ! (r mod nv) @ replicate (n * (T - 1) - r div nv * n) 0
            else replicate (n * (T - 1)) 0)))"


section \<open>Invariants of the elimination\<close>

text \<open>
  A row \<open>w\<close> of the elimination's array is \<open>good\<close> when its left half is its right half
  times \<open>X\<close>. \<open>kernel_free\<close> says that only the zero vector is orthogonal to every row.
  After \<open>j\<close> steps the rows are good, the first \<open>j\<close> columns are those of the identity,
  and the right halves are kernel-free.
\<close>

definition good :: "nat \<Rightarrow> mat \<Rightarrow> vec \<Rightarrow> bool" where
  "good n X w \<longleftrightarrow> length w = 2 * n \<and> take n w = vec_mat (drop n w) X"

definition kernel_free :: "nat \<Rightarrow> mat \<Rightarrow> bool" where
  "kernel_free n M \<longleftrightarrow>
     (\<forall>y. length y = n \<longrightarrow> (\<forall>r\<in>set M. dot r y = 0) \<longrightarrow> (\<forall>k<n. y ! k = 0))"

definition elim_inv :: "nat \<Rightarrow> mat \<Rightarrow> nat \<Rightarrow> mat \<Rightarrow> bool" where
  "elim_inv n X j W \<longleftrightarrow>
     length W = n \<and> (\<forall>i<n. good n X (W ! i)) \<and>
     (\<forall>i<n. \<forall>c<j. W ! i ! c = (if i = c then 1 else 0)) \<and>
     kernel_free n (map (drop n) W)"

text \<open>A square matrix is invertible when it has a two-sided inverse.\<close>

definition invertible :: "mat \<Rightarrow> bool" where
  "invertible N \<longleftrightarrow>
     (\<exists>Z. is_mat (length N) (length N) Z \<and>
        matmul Z N = Inr (eye (length N)) \<and> matmul N Z = Inr (eye (length N)))"

section \<open>tpgmm.py: task frames\<close>

text \<open>
  \<^verbatim>\<open>
  def get_A_b(demos_x):
      demos_b = []
      demos_A = []
      for i in range(len(demos_x)):
          demos_b.append(np.tile(np.vstack([demos_x[i][0], demos_x[i][-1], ]), (len(demos_x[i]), 1, 1)))
          demos_A.append(np.tile([[[1., 0.], [-0., -1.]], [[1., 0.], [-0., -1.]]], (len(demos_x[i]), 1, 1, 1)))
      demos_A_xdx = [np.kron(np.eye(len(demos_x[0][0])), d) for d in demos_A]
      demos_b_xdx = [np.concatenate([d, np.zeros(d.shape)], axis=-1) for d in demos_b]
      return demos_A, demos_b, demos_A_xdx, demos_b_xdx
  \<close>
  For one demonstration of \<open>T\<close> points of dimension \<open>D\<close>, \<^verbatim>\<open>demos_b[i]\<close> has shape
  \<open>(T, 2, D)\<close> and \<^verbatim>\<open>demos_A[i]\<close> shape \<open>(T, 2, 2, 2)\<close>: per timestep, one offset and one
  linear part for each of the two frames. \<^verbatim>\<open>np.tile(V, (T, 1, 1))\<close> is \<open>T\<close> copies of \<open>V\<close>.
  \<^verbatim>\<open>np.kron\<close> of a two-dimensional \<open>E\<close> with a four-dimensional \<open>d\<close> treats \<open>E\<close> as of
  shape \<open>(1, 1, D, D)\<close>: it is the two-dimensional product with every \<open>d[t][a]\<close>.
\<close>

definition frame_A :: mat where
  "frame_A = [[1, 0], [- 0, - 1]]"

definition tile :: "nat \<Rightarrow> 'a \<Rightarrow> 'a list" where
  "tile T V = replicate T V"

definition frames_of_demo :: "vec list \<Rightarrow> error + mat list \<times> mat list list" where
  "frames_of_demo x =
     ebind (py_get x 0) (\<lambda>first.
     ebind (py_get x (- 1)) (\<lambda>last.
     Inr (tile (length x) [first, last], tile (length x) [frame_A, frame_A])))"

definition get_A_b ::
  "vec list list \<Rightarrow>
     error + mat list list list \<times> mat list list \<times> mat list list list \<times> mat list list" where
  "get_A_b demos_x =
     ebind (for_append frames_of_demo demos_x) (\<lambda>bA.
     let demos_b = map fst bA; demos_A = map snd bA in
     ebind (for_append (\<lambda>d.
              ebind (py_get demos_x 0) (\<lambda>x0.
              ebind (py_get x0 0) (\<lambda>p.
              Inr (map (map (kron (eye (length p)))) d)))) demos_A) (\<lambda>demos_A_xdx.
     let demos_b_xdx = map (map (map (\<lambda>v. v @ replicate (length v) 0))) demos_b in
     Inr (demos_A, demos_b, demos_A_xdx, demos_b_xdx)))"

section \<open>tpgmm.py: observations in the frames\<close>

text \<open>
  \<^verbatim>\<open>
  def get_related_matrix(demos_x):
      demos_dx = get_dx(demos_x)
      demos_xdx = [np.hstack([_x, _dx]) for _x, _dx in zip(demos_x, demos_dx)]
      demos_A, demos_b, demos_A_xdx, demos_b_xdx = get_A_b(demos_x)
      demos_xdx_f = [np.einsum('taji,taj->tai', _A, _x[:, None] - _b) for _x, _A, _b in
                     zip(demos_xdx, demos_A_xdx, demos_b_xdx)]
      demos_xdx_augm = [d.reshape(-1, len(demos_xdx[0][0]) * 2) for d in demos_xdx_f]
      return demos_xdx, demos_A_xdx, demos_b_xdx, demos_xdx_f, demos_xdx_augm
  \<close>
  The \<^verbatim>\<open>einsum\<close> computes, per timestep \<open>t\<close> and frame \<open>a\<close>, the row vector
  \<open>(x[t] - b[t][a])\<close> times the matrix \<open>A[t][a]\<close>; the index \<open>j\<close> must have one range in
  both operands. The \<^verbatim>\<open>reshape\<close> cuts the entries of \<open>d\<close>, in order, into rows.
\<close>

definition in_frame :: "vec \<Rightarrow> mat \<Rightarrow> vec \<Rightarrow> error + vec" where
  "in_frame x A b =
     ebind (broadcast2 (-) x b) (\<lambda>d.
     if length A = length d then Inr (vec_mat d A) else Inl ValueError)"

definition in_frames :: "vec list \<times> mat list list \<times> mat list \<Rightarrow> error + mat list" where
  "in_frames xAb =
     (case xAb of (x, A, b) \<Rightarrow>
        if length A = length x \<and> length b = length x then
          for_append (\<lambda>(x_t, A_t, b_t).
            if length A_t = length b_t then
              for_append (\<lambda>(A_ta, b_ta). in_frame x_t A_ta b_ta) (zip A_t b_t)
            else Inl ValueError) (zip x (zip A b))
        else Inl ValueError)"

definition get_related_matrix ::
  "vec list list \<Rightarrow>
     error + vec list list \<times> mat list list list \<times> mat list list \<times> mat list list \<times> vec list list"
  where
  "get_related_matrix demos_x =
     ebind (get_dx demos_x) (\<lambda>demos_dx.
     ebind (for_append (\<lambda>(x, dx). hstack x dx) (zip demos_x demos_dx)) (\<lambda>demos_xdx.
     ebind (get_A_b demos_x) (\<lambda>Ab.
     case Ab of (demos_A, demos_b, demos_A_xdx, demos_b_xdx) \<Rightarrow>
     ebind (for_append in_frames (zip demos_xdx (zip demos_A_xdx demos_b_xdx))) (\<lambda>demos_xdx_f.
     ebind (for_append (\<lambda>d.
              ebind (py_get demos_xdx 0) (\<lambda>xdx0.
              ebind (py_get xdx0 0) (\<lambda>p.
              reshape_rows (int (length p) * 2) (concat (map concat d))))) demos_xdx_f)
       (\<lambda>demos_xdx_augm.
     Inr (demos_xdx, demos_A_xdx, demos_b_xdx, demos_xdx_f, demos_xdx_augm))))))"

section \<open>tpgmm.py: fusing the frames\<close>

text \<open>
  \<^verbatim>\<open>
  def poe(model, demos_A_xdx, demos_b_xdx, demos_x, demo_idx, plot=False):
      # get transformation for given demonstration.
      # We use the transformation of the first timestep as they are constant
      A, b = demos_A_xdx[demo_idx][0], demos_b_xdx[demo_idx][0]
      # transformed model for coordinate system 1
      mod1 = model.marginal_model(slice(0, len(b[0]))).lintrans(A[0], b[0])
      # transformed model for coordinate system 2
      mod2 = model.marginal_model(slice(len(b[0]), len(b[0]) * 2)).lintrans(A[1], b[1])
      # product
      prod = mod1 * mod2

      if plot:
          if len(demos_x[0, 0]) == 2:
              utils.poe_plot(model, mod1, mod2, prod, demos_x, demo_idx)
          elif len(demos_x[0, 0]) > 2:
              utils.poe_plot_3d(model, mod1, mod2, prod, demos_x, demo_idx)
          else:
              raise Exception('Dimension is less than 2, cannot plot')
      return prod
  \<close>
  The mixture model and its operations are \<^verbatim>\<open>pbdlib\<close>'s, a library that is not part of
  the repository: the type \<open>'g\<close> of models and the operations are parameters. The plot
  functions draw and return. \<open>poe_frames\<close> is the function from its second statement on,
  for the transform \<open>(A, b)\<close> the first statement chose.
\<close>

record 'g pbd =
  marginal_model :: "'g \<Rightarrow> nat \<times> nat \<Rightarrow> error + 'g"
  lintrans :: "'g \<Rightarrow> mat \<Rightarrow> vec \<Rightarrow> error + 'g"
  gmm_mul :: "'g \<Rightarrow> 'g \<Rightarrow> error + 'g"
  nb_dim :: "'g \<Rightarrow> nat"

definition poe_frames ::
  "'g pbd \<Rightarrow> 'g \<Rightarrow> mat list \<Rightarrow> mat \<Rightarrow> vec list list \<Rightarrow> bool \<Rightarrow> error + 'g" where
  "poe_frames lib model A b demos_x plot =
     ebind (py_get b 0) (\<lambda>b0.
     ebind (marginal_model lib model (0, length b0)) (\<lambda>m1.
     ebind (py_get A 0) (\<lambda>A0.
     ebind (lintrans lib m1 A0 b0) (\<lambda>mod1.
     ebind (marginal_model lib model (length b0, length b0 * 2)) (\<lambda>m2.
     ebind (py_get A 1) (\<lambda>A1.
     ebind (py_get b 1) (\<lambda>b1.
     ebind (lintrans lib m2 A1 b1) (\<lambda>mod2.
     ebind (gmm_mul lib mod1 mod2) (\<lambda>prod.
     if plot then
       ebind (py_get demos_x 0) (\<lambda>x0.
       ebind (py_get x0 0) (\<lambda>p.
       if length p = 2 then Inr prod
       else if length p > 2 then Inr prod
       else Inl PlotError))
     else Inr prod)))))))))"

definition poe ::
  "'g pbd \<Rightarrow> 'g \<Rightarrow> mat list list list \<Rightarrow> mat list list \<Rightarrow> vec list list \<Rightarrow> int \<Rightarrow> bool \<Rightarrow>
     error + 'g" where
  "poe lib model demos_A_xdx demos_b_xdx demos_x demo_idx plot =
     ebind (py_get demos_A_xdx demo_idx) (\<lambda>As.
     ebind (py_get As 0) (\<lambda>A.
     ebind (py_get demos_b_xdx demo_idx) (\<lambda>bs.
     ebind (py_get bs 0) (\<lambda>b.
     poe_frames lib model A b demos_x plot))))"

text \<open>
  What \<^verbatim>\<open>pbdlib\<close> records as a model's dimension: \<^verbatim>\<open>marginal_model(dims)\<close> builds a
  model of dimension \<^verbatim>\<open>dims.stop - dims.start\<close>; \<^verbatim>\<open>lintrans\<close> and the product build one
  of the dimension of the model they are called on.
\<close>

definition pbd_shapes :: "'g pbd \<Rightarrow> bool" where
  "pbd_shapes lib \<longleftrightarrow>
     (\<forall>g lo hi g'. marginal_model lib g (lo, hi) = Inr g' \<longrightarrow> nb_dim lib g' = hi - lo) \<and>
     (\<forall>g A b g'. lintrans lib g A b = Inr g' \<longrightarrow> nb_dim lib g' = nb_dim lib g) \<and>
     (\<forall>g h p. gmm_mul lib g h = Inr p \<longrightarrow> nb_dim lib p = nb_dim lib g)"

text \<open>
  An instance for the examples: mixtures with unit covariances, kept as their recorded
  dimension and the means of their components. With the orthogonal linear parts of
  \<open>get_A_b\<close> the covariances stay the unit matrix, and the product of two components
  has the mean of their means.
\<close>

type_synonym unit_gmm = "nat \<times> vec list"

definition unit_pbd :: "unit_gmm pbd" where
  "unit_pbd =
     \<lparr>marginal_model = (\<lambda>g se. case se of (lo, hi) \<Rightarrow>
        Inr (hi - lo, map (\<lambda>mu. take (hi - lo) (drop lo mu)) (snd g))),
      lintrans = (\<lambda>g A b.
        ebind (for_append (\<lambda>mu. ebind (mat_vec A mu) (\<lambda>y. broadcast2 (+) y b)) (snd g))
          (\<lambda>mus. Inr (fst g, mus))),
      gmm_mul = (\<lambda>g h.
        if length (snd g) = length (snd h) then
          Inr (fst g, map2 (map2 (\<lambda>x y. (x + y) / 2)) (snd g) (snd h))
        else Inl ValueError),
      nb_dim = fst\<rparr>"

section \<open>Loops and indexing\<close>

lemma for_append_Inr_iff:
  "for_append f xs = Inr ys \<longleftrightarrow>
     length ys = length xs \<and> (\<forall>i<length xs. f (xs ! i) = Inr (ys ! i))"
proof (induction xs arbitrary: ys)
  case Nil
  then show ?case by auto
next
  case (Cons x xs)
  show ?case
  proof (cases ys)
    case Nil
    then show ?thesis by (auto split: sum.splits)
  next
    case (Cons y ys')
    then show ?thesis
      using Cons.IH [of ys']
      by (auto split: sum.splits simp: nth_Cons split: nat.splits)
  qed
qed

lemma ebind_Inr [simp]: "ebind (Inr a) f = f a"
  by (simp add: ebind_def)

lemma ebind_Inl [simp]: "ebind (Inl e) f = Inl e"
  by (simp add: ebind_def)

lemma for_append_map:
  "(\<And>x. x \<in> set xs \<Longrightarrow> f x = Inr (g x)) \<Longrightarrow> for_append f xs = Inr (map g xs)"
  by (induction xs) simp_all

lemma for_append_prop:
  assumes "\<And>x. x \<in> set xs \<Longrightarrow> \<exists>y. f x = Inr y \<and> P x y"
  shows "\<exists>ys. for_append f xs = Inr ys \<and> length ys = length xs \<and>
           (\<forall>i<length xs. P (xs ! i) (ys ! i))"
proof -
  from assms have "\<forall>x\<in>set xs. \<exists>y. f x = Inr y \<and> P x y" by blast
  then obtain g where g: "\<And>x. x \<in> set xs \<Longrightarrow> f x = Inr (g x) \<and> P x (g x)"
    by metis
  then have "for_append f xs = Inr (map g xs)" by (intro for_append_map) simp
  moreover have "\<forall>i<length xs. P (xs ! i) (map g xs ! i)" using g by simp
  ultimately show ?thesis by auto
qed

lemma for_append_total:
  "(\<And>x. x \<in> set xs \<Longrightarrow> \<exists>y. f x = Inr y) \<Longrightarrow> \<exists>ys. for_append f xs = Inr ys"
  by (induction xs) (fastforce split: sum.splits)+

lemma py_get_nat: "i < length xs \<Longrightarrow> py_get xs (int i) = Inr (xs ! i)"
  by (simp add: py_get_def)

lemma py_get_int: "py_get xs (int i) = (if i < length xs then Inr (xs ! i) else Inl IndexError)"
  by (simp add: py_get_def)

lemma py_get_in_set: "py_get xs i = Inr a \<Longrightarrow> a \<in> set xs"
  by (auto simp: py_get_def split: if_splits)

lemma py_get_first: "xs \<noteq> [] \<Longrightarrow> py_get xs 0 = Inr (xs ! 0)"
  by (cases xs) (simp_all add: py_get_def)

lemma py_get_last: "xs \<noteq> [] \<Longrightarrow> py_get xs (- 1) = Inr (last xs)"
  by (cases xs rule: rev_cases) (simp_all add: py_get_def nth_append)

section \<open>Finite differences: the three branches of \<open>get_dx\<close>\<close>

lemma dx_at_interior:
  assumes "0 < j" and "j + 1 < length x"
  shows "dx_at x j = Inr (vdiv (vdiv (vsub (x ! (j + 1)) (x ! (j - 1))) 2) (1 / 100))"
proof -
  have 1: "py_get x (int j + 1) = Inr (x ! (j + 1))"
    using py_get_nat [of "j + 1" x] assms by (simp add: add.commute)
  have 2: "py_get x (int j - 1) = Inr (x ! (j - 1))"
    using py_get_nat [of "j - 1" x] assms by (simp add: of_nat_diff)
  show ?thesis using assms by (simp add: dx_at_def 1 2 ebind_def)
qed

lemma dx_at_first:
  assumes "2 \<le> length x"
  shows "dx_at x 0 = Inr (vdiv (vsub (x ! 1) (x ! 0)) (1 / 100))"
proof -
  have 1: "py_get x 1 = Inr (x ! 1)" using py_get_nat [of 1 x] assms by simp
  have 2: "py_get x 0 = Inr (x ! 0)" using assms by (cases x) (simp_all add: py_get_def)
  show ?thesis using assms by (simp add: dx_at_def ebind_def 1 2)
qed

lemma dx_at_last:
  assumes "2 \<le> length x"
  shows "dx_at x (length x - 1) =
     Inr (vdiv (vsub (x ! (length x - 1)) (x ! (length x - 2))) (1 / 100))"
proof -
  have 1: "py_get x (int (length x - 1)) = Inr (x ! (length x - 1))"
    using py_get_nat [of "length x - 1" x] assms by simp
  have 2: "py_get x (int (length x - 1) - 1) = Inr (x ! (length x - 2))"
    using py_get_nat [of "length x - 2" x] assms by (simp add: of_nat_diff)
  have 3: "int (length x - 1) = int (length x) - 1" using assms by (simp add: of_nat_diff)
  show ?thesis using assms 1 2 by (simp add: dx_at_def ebind_def 3)
qed

text \<open>
  A demonstration of one point takes the \<^verbatim>\<open>elif\<close> branch with \<open>j = 0\<close>; the index
  \<open>j - 1 = -1\<close> wraps to the same point, so the difference is zero.
\<close>

lemma dx_at_single: "dx_at [p] 0 = Inr (replicate (length p) 0)"
proof -
  have "map2 (-) p p = replicate (length p) (0::real)"
    by (induction p) auto
  then show ?thesis
    by (simp add: dx_at_def ebind_def py_get_def vsub_def vdiv_def)
qed

lemma dx_at_total:
  assumes "j < length x"
  shows "\<exists>d. dx_at x j = Inr d"
proof -
  consider "0 < j \<and> j + 1 < length x" | "j + 1 = length x" | "j = 0 \<and> 1 < length x"
    using assms by linarith
  then show ?thesis
  proof cases
    case 1
    then show ?thesis using dx_at_interior by blast
  next
    case 2
    show ?thesis
    proof (cases "j = 0")
      case True
      then obtain p where "x = [p]" using 2 by (cases x) auto
      then show ?thesis using True dx_at_single by blast
    next
      case False
      then have "2 \<le> length x" "j = length x - 1" using 2 by auto
      then show ?thesis using dx_at_last by blast
    qed
  next
    case 3
    then show ?thesis using dx_at_first [of x] by auto
  qed
qed

lemma get_dx_demo_total: "\<exists>dx. get_dx_demo x = Inr dx"
  unfolding get_dx_demo_def by (rule for_append_total) (simp add: dx_at_total)

lemma get_dx_demo_nth:
  assumes "get_dx_demo x = Inr dx"
  shows "length dx = length x" and "j < length x \<Longrightarrow> dx_at x j = Inr (dx ! j)"
  using assms unfolding get_dx_demo_def for_append_Inr_iff by auto

lemma get_dx_returns: "\<exists>dxs. get_dx demos_x = Inr dxs"
  unfolding get_dx_def by (rule for_append_total) (simp add: get_dx_demo_total)

lemma get_dx_nth:
  assumes "get_dx demos_x = Inr dxs"
  shows "length dxs = length demos_x"
    and "i < length demos_x \<Longrightarrow> get_dx_demo (demos_x ! i) = Inr (dxs ! i)"
  using assms unfolding get_dx_def for_append_Inr_iff by auto

text \<open>
  Claim C4. For a demonstration of length \<open>T \<ge> 2\<close>, \<open>get_dx\<close> returns, at an interior
  timestep \<open>j\<close>, the centred difference \<open>(x[j+1] - x[j-1]) / 2\<close> divided by the time
  step \<open>0.01\<close>; at the first timestep \<open>(x[1] - x[0]) / 0.01\<close> and at the last
  \<open>(x[T-1] - x[T-2]) / 0.01\<close>.
\<close>

theorem get_dx_differences:
  assumes "i < length demos_x" and "2 \<le> length (demos_x ! i)"
  shows "\<exists>dxs. get_dx demos_x = Inr dxs \<and>
     (\<forall>j. 0 < j \<and> j + 1 < length (demos_x ! i) \<longrightarrow>
        dxs ! i ! j =
          vdiv (vdiv (vsub (demos_x ! i ! (j + 1)) (demos_x ! i ! (j - 1))) 2) (1 / 100)) \<and>
     dxs ! i ! 0 = vdiv (vsub (demos_x ! i ! 1) (demos_x ! i ! 0)) (1 / 100) \<and>
     dxs ! i ! (length (demos_x ! i) - 1) =
       vdiv (vsub (demos_x ! i ! (length (demos_x ! i) - 1))
                  (demos_x ! i ! (length (demos_x ! i) - 2))) (1 / 100)"
proof -
  obtain dxs where r: "get_dx demos_x = Inr dxs" using get_dx_returns by blast
  let ?x = "demos_x ! i"
  have d: "get_dx_demo ?x = Inr (dxs ! i)" using get_dx_nth(2) [OF r assms(1)] .
  have at: "dx_at ?x j = Inr (dxs ! i ! j)" if "j < length ?x" for j
    using get_dx_demo_nth(2) [OF d that] .
  have interior: "dxs ! i ! j = vdiv (vdiv (vsub (?x ! (j + 1)) (?x ! (j - 1))) 2) (1 / 100)"
    if j: "0 < j \<and> j + 1 < length ?x" for j
  proof -
    have "j < length ?x" using j by simp
    from at [OF this] dx_at_interior [of j ?x] j show ?thesis by simp
  qed
  have "0 < length ?x" using assms(2) by linarith
  from at [OF this] dx_at_first [OF assms(2)]
  have first: "dxs ! i ! 0 = vdiv (vsub (?x ! 1) (?x ! 0)) (1 / 100)"
    by simp
  have "length ?x - 1 < length ?x" using assms(2) by linarith
  from at [OF this] dx_at_last [OF assms(2)]
  have last: "dxs ! i ! (length ?x - 1) =
      vdiv (vsub (?x ! (length ?x - 1)) (?x ! (length ?x - 2))) (1 / 100)"
    by simp
  show ?thesis using r interior first last by blast
qed

theorem get_dx_differences_witness:
  "\<exists>dxs. get_dx [[[1, 2], [3, 5], [4, 4]]] = Inr dxs \<and>
     dxs ! 0 ! 1 = [150, 100] \<and> dxs ! 0 ! 0 = [200, 300] \<and> dxs ! 0 ! 2 = [100, -100]"
proof -
  let ?d = "[[[1, 2], [3, 5], [4, 4 :: real]]]"
  have "0 < length ?d" and "2 \<le> length (?d ! 0)" by simp_all
  from get_dx_differences [OF this] obtain dxs where r: "get_dx ?d = Inr dxs"
    and m: "\<forall>j. 0 < j \<and> j + 1 < length (?d ! 0) \<longrightarrow>
        dxs ! 0 ! j = vdiv (vdiv (vsub (?d ! 0 ! (j + 1)) (?d ! 0 ! (j - 1))) 2) (1 / 100)"
    and f: "dxs ! 0 ! 0 = vdiv (vsub (?d ! 0 ! 1) (?d ! 0 ! 0)) (1 / 100)"
    and l: "dxs ! 0 ! (length (?d ! 0) - 1) =
       vdiv (vsub (?d ! 0 ! (length (?d ! 0) - 1)) (?d ! 0 ! (length (?d ! 0) - 2))) (1 / 100)"
    by blast
  from m have "dxs ! 0 ! 1 = vdiv (vdiv (vsub (?d ! 0 ! (1 + 1)) (?d ! 0 ! (1 - 1))) 2) (1 / 100)"
    by simp
  then have "dxs ! 0 ! 1 = [150, 100]" by (simp add: vdiv_def vsub_def)
  moreover from f have "dxs ! 0 ! 0 = [200, 300]" by (simp add: vdiv_def vsub_def)
  moreover from l have "dxs ! 0 ! 2 = [100, -100]"
    by (simp add: vdiv_def vsub_def numeral_2_eq_2)
  ultimately show ?thesis using r by blast
qed

text \<open>
  Claim C10. \<open>get_dx\<close> raises on no list of demonstrations: it returns one derivative
  sequence per demonstration, of the demonstration's length, and for a demonstration of
  a single point that sequence is the single zero vector.
\<close>

theorem get_dx_total:
  "\<exists>dxs. get_dx demos_x = Inr dxs \<and> length dxs = length demos_x \<and>
     (\<forall>i<length demos_x.
        length (dxs ! i) = length (demos_x ! i) \<and>
        (\<forall>p. demos_x ! i = [p] \<longrightarrow> dxs ! i = [replicate (length p) 0]))"
proof -
  obtain dxs where r: "get_dx demos_x = Inr dxs" using get_dx_returns by blast
  have len: "length dxs = length demos_x" using get_dx_nth(1) [OF r] .
  have each: "length (dxs ! i) = length (demos_x ! i) \<and>
        (\<forall>p. demos_x ! i = [p] \<longrightarrow> dxs ! i = [replicate (length p) 0])"
    if i: "i < length demos_x" for i
  proof -
    have d: "get_dx_demo (demos_x ! i) = Inr (dxs ! i)" using get_dx_nth(2) [OF r i] .
    have l: "length (dxs ! i) = length (demos_x ! i)" using get_dx_demo_nth(1) [OF d] .
    have "dxs ! i = [replicate (length p) 0]" if p: "demos_x ! i = [p]" for p
    proof -
      have "dx_at [p] 0 = Inr (dxs ! i ! 0)"
        using get_dx_demo_nth(2) [OF d, of 0] p by simp
      then have "dxs ! i ! 0 = replicate (length p) 0" by (simp add: dx_at_single)
      moreover have "length (dxs ! i) = 1" using l p by simp
      ultimately show ?thesis by (cases "dxs ! i") auto
    qed
    then show ?thesis using l by blast
  qed
  show ?thesis using r len each by blast
qed

theorem get_dx_total_witness:
  "\<exists>dxs. get_dx [[[7, 7]], [[1, 2], [3, 5]]] = Inr dxs \<and> length dxs = 2 \<and>
     length (dxs ! 0) = 1 \<and> length (dxs ! 1) = 2 \<and> dxs ! 0 = [[0, 0]]"
proof -
  let ?d = "[[[7, 7]], [[1, 2], [3, 5 :: real]]]"
  from get_dx_total [of ?d] obtain dxs where r: "get_dx ?d = Inr dxs"
    and n: "length dxs = length ?d"
    and e: "\<forall>i<length ?d. length (dxs ! i) = length (?d ! i) \<and>
        (\<forall>p. ?d ! i = [p] \<longrightarrow> dxs ! i = [replicate (length p) 0])"
    by blast
  have 0: "0 < length ?d" and 1: "1 < length ?d" by simp_all
  from e 0 have "length (dxs ! 0) = length (?d ! 0)" by blast
  then have a: "length (dxs ! 0) = 1" by simp
  from e 1 have "length (dxs ! 1) = length (?d ! 1)" by blast
  then have b: "length (dxs ! 1) = 2" by simp
  from e 0 have "\<forall>p. ?d ! 0 = [p] \<longrightarrow> dxs ! 0 = [replicate (length p) 0]" by blast
  then have "dxs ! 0 = [replicate (length [7, 7 :: real]) 0]" by simp
  then have c: "dxs ! 0 = [[0, 0]]" by (simp add: numeral_2_eq_2)
  from n have "length dxs = 2" by simp
  with r a b c show ?thesis by blast
qed

section \<open>Evaluating the worked example\<close>

lemma example_setup:
  "uni_cp_setup example_param example_data =
     Inr ([0, 0], [[1], [2]], example_param(''nbPoints'' \<mapsto> IntV 2))"
  by (simp add: uni_cp_setup_def example_param_def example_data_def param_int_def param_get_def
      ebind_def py_take_def py_slice_def py_get_def set_prefix_def numeral_2_eq_2)

lemma example_param_nbPoints: "example_param ''nbPoints'' = None"
  by (simp add: example_param_def)

lemma example_piecewise: "build_phi_piecewise 2 2 = Inr [[1, 0], [0, 1]]"
  by (simp add: build_phi_piecewise_def np_identity_def np_ones_def ebind_def eye_def kron_def
      py_take_def py_slice_def upt_rec numeral_2_eq_2)

section \<open>The basis lookup of \<open>define_control_primitive\<close>\<close>

lemma functions_dict_None:
  assumes "\<forall>b\<in>{''PIECEWEISE'', ''RBF'', ''BERNSTEIN'', ''FOURIER''}. name \<noteq> StrV b"
  shows "functions_dict prim name = None"
  using assms by (simp add: functions_dict_def)

lemma functions_dict_Some:
  "functions_dict prim (StrV ''PIECEWEISE'') = Some (phi_piecewise prim)"
  "functions_dict prim (StrV ''RBF'') = Some (phi_rbf prim)"
  "functions_dict prim (StrV ''BERNSTEIN'') = Some (phi_bernstein prim)"
  "functions_dict prim (StrV ''FOURIER'') = Some (phi_fourier prim)"
  by (simp_all add: functions_dict_def)



section \<open>The configuration across \<open>uni_cp\<close>\<close>

lemma py_get_0_Inr: "py_get xs 0 = Inr r \<Longrightarrow> xs \<noteq> []"
  by (auto simp: py_get_def)

text \<open>
  Claim C8, as the code has it. \<open>uni_cp\<close> writes the key \<^verbatim>\<open>nbPoints\<close> of the caller's
  dictionary: after the call the dictionary is the caller's with \<^verbatim>\<open>nbPoints\<close> set to
  the number of via-points (the rows of \<^verbatim>\<open>data\<close> after the first), unless the call
  raised before that assignment, which leaves the dictionary as it was. No other key
  changes.
\<close>

theorem uni_cp_writes_nbPoints:
  "snd (uni_cp env param data) = param(''nbPoints'' \<mapsto> IntV (int (length data) - 1)) \<or>
   (snd (uni_cp env param data) = param \<and> (\<exists>e. fst (uni_cp env param data) = Inl e))"
proof (cases "uni_cp_setup param data")
  case (Inl e)
  then show ?thesis by (simp add: uni_cp_def)
next
  case (Inr t)
  obtain start_pose via param' where t: "t = (start_pose, via, param')" by (cases t)
  from Inr t obtain n r where r: "py_get (map (py_take n) data) 0 = Inr r"
      and p: "param' = param(''nbPoints'' \<mapsto> IntV (int (length (drop 1 (map (py_take n) data)))))"
    by (auto simp: uni_cp_setup_def ebind_def Let_def split: sum.splits if_splits)
  from r have "data \<noteq> []" using py_get_0_Inr by fastforce
  then have "int (length (drop 1 (map (py_take n) data))) = int (length data) - 1"
    by (cases data) simp_all
  with p Inr t show ?thesis by (simp add: uni_cp_def)
qed

theorem uni_cp_writes_nbPoints_witness:
  "snd (uni_cp example_env example_param example_data) =
     example_param(''nbPoints'' \<mapsto> IntV 2)"
proof -
  have "snd (uni_cp example_env example_param example_data) \<noteq> example_param"
    by (simp add: uni_cp_def example_setup fun_upd_idem_iff example_param_nbPoints)
  with uni_cp_writes_nbPoints [of example_env example_param example_data]
  show ?thesis by (simp add: example_data_def)
qed

text \<open>
  The claim as stated fails: the dictionary of the worked example has no key
  \<^verbatim>\<open>nbPoints\<close> before the call and has it, with value 2, after.
\<close>

theorem uni_cp_mutates_param:
  "snd (uni_cp example_env example_param example_data) ''nbPoints'' = Some (IntV 2) \<and>
   example_param ''nbPoints'' = None \<and>
   snd (uni_cp example_env example_param example_data) \<noteq> example_param"
  by (simp add: uni_cp_def example_setup fun_upd_idem_iff example_param_nbPoints)

section \<open>Task frames are constant over a demonstration\<close>

lemma frames_of_demo_eq:
  "x \<noteq> [] \<Longrightarrow> frames_of_demo x =
     Inr (tile (length x) [x ! 0, last x], tile (length x) [frame_A, frame_A])"
  by (simp add: frames_of_demo_def py_get_first py_get_last)

text \<open>The value of \<open>get_A_b\<close> on demonstrations that each have a point.\<close>

lemma get_A_b_eq:
  assumes "\<forall>x\<in>set demos_x. x \<noteq> []"
  shows "get_A_b demos_x =
     Inr (map (\<lambda>x. tile (length x) [frame_A, frame_A]) demos_x,
          map (\<lambda>x. tile (length x) [x ! 0, last x]) demos_x,
          map (\<lambda>x. tile (length x)
                 [kron (eye (length (demos_x ! 0 ! 0))) frame_A,
                  kron (eye (length (demos_x ! 0 ! 0))) frame_A]) demos_x,
          map (\<lambda>x. tile (length x)
                 [x ! 0 @ replicate (length (x ! 0)) 0,
                  last x @ replicate (length (last x)) 0]) demos_x)"
proof -
  let ?g = "\<lambda>x. (tile (length x) [x ! 0, last x], tile (length x) [frame_A, frame_A])"
  have 1: "for_append frames_of_demo demos_x = Inr (map ?g demos_x)"
    using assms by (intro for_append_map) (simp add: frames_of_demo_eq)
  let ?dA = "map snd (map ?g demos_x)"
  have 2: "for_append (\<lambda>d.
              ebind (py_get demos_x 0) (\<lambda>x0.
              ebind (py_get x0 0) (\<lambda>p.
              Inr (map (map (kron (eye (length p)))) d)))) ?dA =
        Inr (map (map (map (kron (eye (length (demos_x ! 0 ! 0)))))) ?dA)"
  proof (intro for_append_map)
    fix d assume "d \<in> set ?dA"
    then have ne: "demos_x \<noteq> []" by auto
    then have "demos_x ! 0 \<in> set demos_x" by simp
    then have "demos_x ! 0 \<noteq> []" using assms by blast
    then show "ebind (py_get demos_x 0) (\<lambda>x0.
              ebind (py_get x0 0) (\<lambda>p.
              Inr (map (map (kron (eye (length p)))) d))) =
           Inr (map (map (kron (eye (length (demos_x ! 0 ! 0))))) d)"
      using ne by (simp add: py_get_first)
  qed
  show ?thesis
    unfolding get_A_b_def
    apply (simp only: 1 ebind_Inr Let_def 2)
    apply (simp add: tile_def comp_def)
    done
qed

text \<open>\<open>poe\<close> indexes the transforms of the chosen demonstration at timestep 0 only.\<close>

lemma poe_later_timestep:
  assumes "0 < t"
  shows "poe lib model (dA[i := (dA ! i)[t := X]]) (db[i := (db ! i)[t := Y]]) dx (int i) plot =
         poe lib model dA db dx (int i) plot"
proof -
  have A: "ebind (py_get (dA[i := (dA ! i)[t := X]]) (int i)) (\<lambda>As. ebind (py_get As 0) f) =
           ebind (py_get dA (int i)) (\<lambda>As. ebind (py_get As 0) f)" for f
    using assms by (cases "i < length dA") (simp_all add: py_get_int [where i = i] py_get_def)
  have B: "ebind (py_get (db[i := (db ! i)[t := Y]]) (int i)) (\<lambda>bs. ebind (py_get bs 0) f) =
           ebind (py_get db (int i)) (\<lambda>bs. ebind (py_get bs 0) f)" for f
    using assms by (cases "i < length db") (simp_all add: py_get_int [where i = i] py_get_def)
  show ?thesis unfolding poe_def by (simp only: A B)
qed

text \<open>
  Claim C5. For demonstrations that each have a point, \<open>get_A_b\<close> returns, for every
  demonstration \<open>i\<close>, one transform per timestep, and at every timestep \<open>t\<close> the same one:
  the linear part of both frames is \<open>kron(eye(D), [[1, 0], [-0, -1]])\<close> (\<open>D\<close> the
  dimension of the first demonstration's points), the offset of the first frame is the
  demonstration's first point and that of the second frame its last point, each followed
  by a block of zeros for the velocity. \<open>poe\<close> reads the transform of timestep 0 only:
  replacing the transform of a later timestep changes nothing in its result.
\<close>

theorem frames_constant_over_trajectory:
  assumes "\<forall>x\<in>set demos_x. x \<noteq> []"
  shows "\<exists>demos_A demos_b demos_A_xdx demos_b_xdx.
     get_A_b demos_x = Inr (demos_A, demos_b, demos_A_xdx, demos_b_xdx) \<and>
     (\<forall>i<length demos_x.
        length (demos_A_xdx ! i) = length (demos_x ! i) \<and>
        length (demos_b_xdx ! i) = length (demos_x ! i) \<and>
        (\<forall>t<length (demos_x ! i).
           demos_A_xdx ! i ! t =
             [kron (eye (length (demos_x ! 0 ! 0))) frame_A,
              kron (eye (length (demos_x ! 0 ! 0))) frame_A] \<and>
           demos_b_xdx ! i ! t =
             [demos_x ! i ! 0 @ replicate (length (demos_x ! i ! 0)) 0,
              last (demos_x ! i) @ replicate (length (last (demos_x ! i))) 0]) \<and>
        (\<forall>t X Y lib model plot. 0 < t \<longrightarrow>
           poe lib model (demos_A_xdx[i := (demos_A_xdx ! i)[t := X]])
               (demos_b_xdx[i := (demos_b_xdx ! i)[t := Y]]) demos_x (int i) plot =
           (poe lib model demos_A_xdx demos_b_xdx demos_x (int i) plot :: error + 'g)))"
proof -
  let ?K = "kron (eye (length (demos_x ! 0 ! 0))) frame_A"
  let ?A = "map (\<lambda>x. tile (length x) [frame_A, frame_A]) demos_x"
  let ?b = "map (\<lambda>x. tile (length x) [x ! 0, last x]) demos_x"
  let ?Ax = "map (\<lambda>x. tile (length x) [?K, ?K]) demos_x"
  let ?bx = "map (\<lambda>x. tile (length x)
                 [x ! 0 @ replicate (length (x ! 0)) 0,
                  last x @ replicate (length (last x)) 0]) demos_x"
  have r: "get_A_b demos_x = Inr (?A, ?b, ?Ax, ?bx)" using get_A_b_eq [OF assms] .
  have "length (?Ax ! i) = length (demos_x ! i) \<and>
        length (?bx ! i) = length (demos_x ! i) \<and>
        (\<forall>t<length (demos_x ! i).
           ?Ax ! i ! t = [?K, ?K] \<and>
           ?bx ! i ! t =
             [demos_x ! i ! 0 @ replicate (length (demos_x ! i ! 0)) 0,
              last (demos_x ! i) @ replicate (length (last (demos_x ! i))) 0]) \<and>
        (\<forall>t X Y lib model plot. 0 < t \<longrightarrow>
           poe lib model (?Ax[i := (?Ax ! i)[t := X]])
               (?bx[i := (?bx ! i)[t := Y]]) demos_x (int i) plot =
           (poe lib model ?Ax ?bx demos_x (int i) plot :: error + 'g))"
    if "i < length demos_x" for i
  proof (intro conjI)
    show "\<forall>t X Y lib model plot. 0 < t \<longrightarrow>
           poe lib model (?Ax[i := (?Ax ! i)[t := X]])
               (?bx[i := (?bx ! i)[t := Y]]) demos_x (int i) plot =
           (poe lib model ?Ax ?bx demos_x (int i) plot :: error + 'g)"
      by (intro allI impI) (rule poe_later_timestep)
  qed (use that in \<open>simp_all add: tile_def\<close>)
  with r show ?thesis by blast
qed

theorem frames_constant_over_trajectory_witness:
  "\<exists>demos_A demos_b demos_A_xdx demos_b_xdx.
     get_A_b [[[1, 2], [3, 5], [4, 4]]] = Inr (demos_A, demos_b, demos_A_xdx, demos_b_xdx) \<and>
     demos_A_xdx ! 0 ! 2 =
       [[[1, 0, 0, 0], [0, - 1, 0, 0], [0, 0, 1, 0], [0, 0, 0, - 1]],
        [[1, 0, 0, 0], [0, - 1, 0, 0], [0, 0, 1, 0], [0, 0, 0, - 1]]] \<and>
     demos_b_xdx ! 0 ! 2 = [[1, 2, 0, 0], [4, 4, 0, 0]] \<and>
     poe unit_pbd (8, [[0, 0, 0, 0, 0, 0, 0, 0]])
         (demos_A_xdx[0 := (demos_A_xdx ! 0)[2 := []]])
         (demos_b_xdx[0 := (demos_b_xdx ! 0)[2 := []]]) [[[1, 2], [3, 5], [4, 4]]] (int 0) False =
     poe unit_pbd (8, [[0, 0, 0, 0, 0, 0, 0, 0]]) demos_A_xdx demos_b_xdx
         [[[1, 2], [3, 5], [4, 4]]] (int 0) False"
proof -
  let ?d = "[[[1, 2], [3, 5], [4, 4 :: real]]]"
  have "\<forall>x\<in>set ?d. x \<noteq> []" by simp
  from frames_constant_over_trajectory [OF this, where ?'g = unit_gmm]
  obtain demos_A demos_b demos_A_xdx demos_b_xdx
    where r: "get_A_b ?d = Inr (demos_A, demos_b, demos_A_xdx, demos_b_xdx)"
      and a: "\<forall>i<length ?d.
        length (demos_A_xdx ! i) = length (?d ! i) \<and>
        length (demos_b_xdx ! i) = length (?d ! i) \<and>
        (\<forall>t<length (?d ! i).
           demos_A_xdx ! i ! t =
             [kron (eye (length (?d ! 0 ! 0))) frame_A,
              kron (eye (length (?d ! 0 ! 0))) frame_A] \<and>
           demos_b_xdx ! i ! t =
             [?d ! i ! 0 @ replicate (length (?d ! i ! 0)) 0,
              last (?d ! i) @ replicate (length (last (?d ! i))) 0]) \<and>
        (\<forall>t X Y lib model plot. 0 < t \<longrightarrow>
           poe lib model (demos_A_xdx[i := (demos_A_xdx ! i)[t := X]])
               (demos_b_xdx[i := (demos_b_xdx ! i)[t := Y]]) ?d (int i) plot =
           (poe lib model demos_A_xdx demos_b_xdx ?d (int i) plot :: error + unit_gmm))"
    by blast
  have 0: "0 < length ?d" by simp
  from a 0 have t: "\<forall>t<length (?d ! 0).
           demos_A_xdx ! 0 ! t =
             [kron (eye (length (?d ! 0 ! 0))) frame_A,
              kron (eye (length (?d ! 0 ! 0))) frame_A] \<and>
           demos_b_xdx ! 0 ! t =
             [?d ! 0 ! 0 @ replicate (length (?d ! 0 ! 0)) 0,
              last (?d ! 0) @ replicate (length (last (?d ! 0))) 0]"
    and p: "\<forall>t X Y lib model plot. 0 < t \<longrightarrow>
           poe lib model (demos_A_xdx[0 := (demos_A_xdx ! 0)[t := X]])
               (demos_b_xdx[0 := (demos_b_xdx ! 0)[t := Y]]) ?d (int 0) plot =
           (poe lib model demos_A_xdx demos_b_xdx ?d (int 0) plot :: error + unit_gmm)"
    by blast+
  have "2 < length (?d ! 0)" by simp
  with t have "demos_A_xdx ! 0 ! 2 =
             [kron (eye (length (?d ! 0 ! 0))) frame_A,
              kron (eye (length (?d ! 0 ! 0))) frame_A]"
    and "demos_b_xdx ! 0 ! 2 =
             [?d ! 0 ! 0 @ replicate (length (?d ! 0 ! 0)) 0,
              last (?d ! 0) @ replicate (length (last (?d ! 0))) 0]"
    by blast+
  then have A: "demos_A_xdx ! 0 ! 2 =
       [[[1, 0, 0, 0], [0, - 1, 0, 0], [0, 0, 1, 0], [0, 0, 0, - 1]],
        [[1, 0, 0, 0], [0, - 1, 0, 0], [0, 0, 1, 0], [0, 0, 0, - 1]]]"
    and b: "demos_b_xdx ! 0 ! 2 = [[1, 2, 0, 0], [4, 4, 0, 0]]"
    by (simp_all add: kron_def eye_def frame_A_def upt_rec numeral_2_eq_2)
  have "(0::nat) < 2" by simp
  with p have "poe unit_pbd (8, [[0, 0, 0, 0, 0, 0, 0, 0]])
         (demos_A_xdx[0 := (demos_A_xdx ! 0)[2 := []]])
         (demos_b_xdx[0 := (demos_b_xdx ! 0)[2 := []]]) ?d (int 0) False =
     poe unit_pbd (8, [[0, 0, 0, 0, 0, 0, 0, 0]]) demos_A_xdx demos_b_xdx ?d (int 0) False"
    by blast
  with r A b show ?thesis by blast
qed

section \<open>Shapes of arrays\<close>

lemma is_mat_iff: "is_mat r c M \<longleftrightarrow> length M = r \<and> (\<forall>row\<in>set M. length row = c)"
  by (simp add: is_mat_def list_all_iff)

lemma ncols_is_mat: "is_mat r c M \<Longrightarrow> 0 < r \<Longrightarrow> ncols M = c"
  by (cases M) (auto simp: is_mat_iff ncols_def)

lemma length_concat_const:
  "(\<And>x. x \<in> set xs \<Longrightarrow> length (f x) = k) \<Longrightarrow> length (concat (map f xs)) = length xs * k"
  by (induction xs) simp_all

lemma is_mat_kron:
  assumes "is_mat r c X" and "is_mat r' c' Y"
  shows "is_mat (r * r') (c * c') (kron X Y)"
proof -
  have len: "length (kron X Y) = r * r'"
    unfolding kron_def using assms by (simp add: length_concat_const is_mat_iff)
  have "length row = c * c'" if "row \<in> set (kron X Y)" for row
  proof -
    from that obtain rx ry where "rx \<in> set X" "ry \<in> set Y"
      and row: "row = concat (map (\<lambda>a. map (\<lambda>b. a * b) ry) rx)"
      by (auto simp: kron_def)
    then have "length rx = c" "length ry = c'" using assms by (auto simp: is_mat_iff)
    then show ?thesis unfolding row by (simp add: length_concat_const)
  qed
  with len show ?thesis by (simp add: is_mat_iff)
qed

lemma is_mat_eye: "is_mat n n (eye n)"
  by (auto simp: is_mat_iff eye_def)

lemma is_mat_frame_A: "is_mat 2 2 frame_A"
  by (simp add: is_mat_iff frame_A_def)

lemma length_vec_mat: "length (vec_mat r Y) = ncols Y"
  by (simp add: vec_mat_def)

lemma dx_at_length:
  assumes "\<forall>p\<in>set x. length p = D" and "dx_at x j = Inr d"
  shows "length d = D"
  using assms
  by (auto simp: dx_at_def ebind_def vsub_def vdiv_def split: if_splits sum.splits
      dest!: py_get_in_set)

lemma ebind_eq_Inr: "ebind m f = Inr y \<longleftrightarrow> (\<exists>a. m = Inr a \<and> f a = Inr y)"
  by (cases m) simp_all

lemma in_frame_shape:
  assumes "length x = n" and "length b = n" and "is_mat n c A" and "0 < n"
  shows "\<exists>y. in_frame x A b = Inr y \<and> length y = c"
proof -
  have "length A = n" using assms(3) by (simp add: is_mat_iff)
  moreover have "ncols A = c" using assms(3,4) by (rule ncols_is_mat)
  ultimately show ?thesis
    using assms(1,2) by (simp add: in_frame_def broadcast2_def length_vec_mat)
qed

lemma in_frames_shape:
  assumes "\<forall>r\<in>set x. length r = n" and "is_mat n c K" and "0 < n"
    and "length b0 = n" and "length b1 = n"
  shows "\<exists>y. in_frames (x, tile (length x) [K, K], tile (length x) [b0, b1]) = Inr y \<and>
           length y = length x \<and> (\<forall>m\<in>set y. length m = 2 \<and> (\<forall>v\<in>set m. length v = c))"
proof -
  let ?f = "\<lambda>(x_t, A_t, b_t).
            if length A_t = length b_t then
              for_append (\<lambda>(A_ta, b_ta). in_frame x_t A_ta b_ta) (zip A_t b_t)
            else Inl ValueError"
  let ?z = "zip x (zip (tile (length x) [K, K]) (tile (length x) [b0, b1]))"
  have "\<exists>y. ?f e = Inr y \<and> (length y = 2 \<and> (\<forall>v\<in>set y. length v = c))"
    if "e \<in> set ?z" for e
  proof -
    obtain x_t A_t b_t where e0: "e = (x_t, A_t, b_t)" by (cases e)
    with that have e: "e = (x_t, [K, K], [b0, b1])" and "x_t \<in> set x"
      by (auto simp: tile_def in_set_zip)
    then have l: "length x_t = n" using assms(1) by blast
    from in_frame_shape [OF l assms(4) assms(2) assms(3)]
    obtain y0 where y0: "in_frame x_t K b0 = Inr y0" "length y0 = c" by blast
    from in_frame_shape [OF l assms(5) assms(2) assms(3)]
    obtain y1 where y1: "in_frame x_t K b1 = Inr y1" "length y1 = c" by blast
    show ?thesis unfolding e using y0 y1 by simp
  qed
  from for_append_prop [of ?z ?f "\<lambda>e y. length y = 2 \<and> (\<forall>v\<in>set y. length v = c)", OF this]
  obtain ys where ys: "for_append ?f ?z = Inr ys" "length ys = length ?z"
    "\<forall>i<length ?z. length (ys ! i) = 2 \<and> (\<forall>v\<in>set (ys ! i). length v = c)"
    by blast
  have "length ?z = length x" by (simp add: tile_def)
  with ys have "\<forall>m\<in>set ys. length m = 2 \<and> (\<forall>v\<in>set m. length v = c)"
    by (metis in_set_conv_nth)
  with ys \<open>length ?z = length x\<close> show ?thesis
    by (simp add: in_frames_def tile_def)
qed

lemma reshape_rows_shape:
  assumes "0 < k" and "length v = T * k"
  shows "\<exists>rows. reshape_rows (int k) v = Inr rows \<and> length rows = T \<and>
           (\<forall>r\<in>set rows. length r = k)"
proof -
  have "length (take k (drop (i * k) v)) = k" if "i < T" for i
  proof -
    have "(i + 1) * k \<le> T * k" using that by (intro mult_le_mono1) simp
    then show ?thesis using assms(2) by simp
  qed
  then show ?thesis using assms by (auto simp: reshape_rows_def)
qed

lemma poe_dim:
  assumes "pbd_shapes lib" and "poe lib model dA db dx idx plot = Inr fused"
    and "\<forall>bs\<in>set db. \<forall>b\<in>set bs. \<forall>v\<in>set b. length v = n"
  shows "nb_dim lib fused = n"
proof -
  from assms(2) obtain As A bs b where "py_get db idx = Inr bs" and "py_get bs 0 = Inr b"
    and f: "poe_frames lib model A b dx plot = Inr fused"
    by (auto simp: poe_def ebind_eq_Inr)
  then have b: "\<forall>v\<in>set b. length v = n" using assms(3) by (meson py_get_in_set)
  from f obtain b0 m1 A0 mod1 mod2
    where b0: "py_get b 0 = Inr b0"
      and m1: "marginal_model lib model (0, length b0) = Inr m1"
      and l1: "lintrans lib m1 A0 b0 = Inr mod1"
      and pr: "gmm_mul lib mod1 mod2 = Inr fused"
    by (auto simp: poe_frames_def ebind_eq_Inr split: if_splits)
  from b0 b have "length b0 = n" by (meson py_get_in_set)
  moreover from assms(1) m1 have "nb_dim lib m1 = length b0 - 0"
    unfolding pbd_shapes_def by blast
  moreover from assms(1) l1 have "nb_dim lib mod1 = nb_dim lib m1"
    unfolding pbd_shapes_def by blast
  moreover from assms(1) pr have "nb_dim lib fused = nb_dim lib mod1"
    unfolding pbd_shapes_def by blast
  ultimately show ?thesis by simp
qed


section \<open>Dimensions of the observations and of the fused model\<close>

lemma get_dx_rows:
  assumes "\<forall>x\<in>set demos_x. \<forall>p\<in>set x. length p = D"
  shows "\<exists>dxs. get_dx demos_x = Inr dxs \<and> length dxs = length demos_x \<and>
           (\<forall>i<length demos_x. length (dxs ! i) = length (demos_x ! i) \<and>
              (\<forall>r\<in>set (dxs ! i). length r = D))"
proof -
  obtain dxs where r: "get_dx demos_x = Inr dxs" using get_dx_returns by blast
  have "length (dxs ! i) = length (demos_x ! i) \<and> (\<forall>r\<in>set (dxs ! i). length r = D)"
    if i: "i < length demos_x" for i
  proof -
    have d: "get_dx_demo (demos_x ! i) = Inr (dxs ! i)" using get_dx_nth(2) [OF r i] .
    have l: "length (dxs ! i) = length (demos_x ! i)" using get_dx_demo_nth(1) [OF d] .
    have rect: "\<forall>p\<in>set (demos_x ! i). length p = D" using assms i nth_mem by blast
    have "length r = D" if "r \<in> set (dxs ! i)" for r
    proof -
      from that obtain j where j: "j < length (dxs ! i)" "r = dxs ! i ! j"
        by (auto simp: in_set_conv_nth)
      with l have "dx_at (demos_x ! i) j = Inr r" using get_dx_demo_nth(2) [OF d] by simp
      with rect show ?thesis by (rule dx_at_length)
    qed
    with l show ?thesis by blast
  qed
  with r get_dx_nth(1) [OF r] show ?thesis by blast
qed

lemma related_matrix_shapes:
  assumes rect: "\<forall>x\<in>set demos_x. x \<noteq> [] \<and> (\<forall>p\<in>set x. length p = D)" and D: "0 < D"
  shows "\<exists>demos_xdx demos_A_xdx demos_b_xdx demos_xdx_f demos_xdx_augm.
     get_related_matrix demos_x =
       Inr (demos_xdx, demos_A_xdx, demos_b_xdx, demos_xdx_f, demos_xdx_augm) \<and>
     length demos_xdx_augm = length demos_x \<and>
     (\<forall>i<length demos_x.
        length (demos_xdx_augm ! i) = length (demos_x ! i) \<and>
        (\<forall>r\<in>set (demos_xdx_augm ! i). length r = 4 * D)) \<and>
     length demos_b_xdx = length demos_x \<and>
     (\<forall>i<length demos_x. length (demos_b_xdx ! i) = length (demos_x ! i)) \<and>
     (\<forall>bs\<in>set demos_b_xdx. \<forall>b\<in>set bs. length b = 2 \<and> (\<forall>v\<in>set b. length v = 2 * D))"
proof -
  let ?n = "length demos_x"
  have ne: "\<forall>x\<in>set demos_x. x \<noteq> []" using rect by blast
  have rows: "\<forall>x\<in>set demos_x. \<forall>p\<in>set x. length p = D" using rect by blast
  \<comment> \<open>the derivatives\<close>
  from get_dx_rows [OF rows] obtain dxs where dx: "get_dx demos_x = Inr dxs"
    and dxl: "length dxs = ?n"
    and dxi: "\<forall>i<?n. length (dxs ! i) = length (demos_x ! i) \<and>
              (\<forall>r\<in>set (dxs ! i). length r = D)"
    by blast
  \<comment> \<open>positions with velocities\<close>
  let ?z1 = "zip demos_x dxs"
  let ?P1 = "\<lambda>e y. length y = length (fst e) \<and> (\<forall>r\<in>set y. length r = 2 * D)"
  have "\<exists>y. (\<lambda>(x, dx). hstack x dx) e = Inr y \<and> ?P1 e y" if "e \<in> set ?z1" for e
  proof -
    from that obtain i where i: "i < ?n" and e: "e = (demos_x ! i, dxs ! i)"
      using dxl by (auto simp: in_set_zip)
    have l: "length (dxs ! i) = length (demos_x ! i)" using dxi i by blast
    have "length r = 2 * D" if "r \<in> set (map2 (@) (demos_x ! i) (dxs ! i))" for r
    proof -
      from that obtain a b where "a \<in> set (demos_x ! i)" "b \<in> set (dxs ! i)" "r = a @ b"
        by (auto dest: set_zip_leftD set_zip_rightD)
      then show ?thesis using rows dxi i by (metis length_append mult_2 nth_mem)
    qed
    then show ?thesis unfolding e using l by (simp add: hstack_def)
  qed
  from for_append_prop [of ?z1 "\<lambda>(x, dx). hstack x dx" ?P1, OF this]
  obtain xdx where x1: "for_append (\<lambda>(x, dx). hstack x dx) ?z1 = Inr xdx"
    and x1l: "length xdx = length ?z1"
    and x1i: "\<forall>i<length ?z1. ?P1 (?z1 ! i) (xdx ! i)"
    by blast
  have xl: "length xdx = ?n" using x1l dxl by simp
  have xi: "length (xdx ! i) = length (demos_x ! i) \<and> (\<forall>r\<in>set (xdx ! i). length r = 2 * D)"
    if "i < ?n" for i
    using x1i that dxl by simp
  \<comment> \<open>the frames\<close>
  let ?D0 = "length (demos_x ! 0 ! 0)"
  let ?K = "kron (eye ?D0) frame_A"
  let ?A = "map (\<lambda>x. tile (length x) [frame_A, frame_A]) demos_x"
  let ?b = "map (\<lambda>x. tile (length x) [x ! 0, last x]) demos_x"
  let ?Ax = "map (\<lambda>x. tile (length x) [?K, ?K]) demos_x"
  let ?bx = "map (\<lambda>x. tile (length x)
                 [x ! 0 @ replicate (length (x ! 0)) 0,
                  last x @ replicate (length (last x)) 0]) demos_x"
  have Ab: "get_A_b demos_x = Inr (?A, ?b, ?Ax, ?bx)" using get_A_b_eq [OF ne] .
  have D0: "?D0 = D" if "demos_x \<noteq> []"
  proof -
    from that have "demos_x ! 0 \<in> set demos_x" by simp
    moreover from this have "demos_x ! 0 ! 0 \<in> set (demos_x ! 0)" using ne by simp
    ultimately show ?thesis using rows by blast
  qed
  have K: "is_mat (2 * D) (2 * D) ?K" if "demos_x \<noteq> []"
    using is_mat_kron [OF is_mat_eye is_mat_frame_A, of ?D0] D0 [OF that]
    by (simp add: mult.commute)
  have bxs: "\<forall>bs\<in>set ?bx. \<forall>b\<in>set bs. length b = 2 \<and> (\<forall>v\<in>set b. length v = 2 * D)"
  proof (intro ballI)
    fix bs b assume "bs \<in> set ?bx" "b \<in> set bs"
    then obtain x where x: "x \<in> set demos_x"
      and b: "b = [x ! 0 @ replicate (length (x ! 0)) 0, last x @ replicate (length (last x)) 0]"
      by (auto simp: tile_def)
    from x ne have "x ! 0 \<in> set x" "last x \<in> set x" by simp_all
    with x rows have "length (x ! 0) = D" "length (last x) = D" by blast+
    then show "length b = 2 \<and> (\<forall>v\<in>set b. length v = 2 * D)" unfolding b by simp
  qed
  \<comment> \<open>the observations in the frames\<close>
  let ?z2 = "zip xdx (zip ?Ax ?bx)"
  let ?P2 = "\<lambda>e y. length y = length (fst e) \<and>
      (\<forall>m\<in>set y. length m = 2 \<and> (\<forall>v\<in>set m. length v = 2 * D))"
  have z2l: "length ?z2 = ?n" using xl by simp
  have "\<exists>y. in_frames e = Inr y \<and> ?P2 e y" if "e \<in> set ?z2" for e
  proof -
    from that obtain i where "i < length ?z2" and e0: "e = ?z2 ! i"
      unfolding in_set_conv_nth by blast
    then have i: "i < ?n" using z2l by simp
    let ?x = "demos_x ! i"
    have xin: "?x \<in> set demos_x" using i by simp
    have lx: "length (xdx ! i) = length ?x" using xi [OF i] by blast
    have e: "e = (xdx ! i, tile (length (xdx ! i)) [?K, ?K],
        tile (length (xdx ! i))
          [?x ! 0 @ replicate (length (?x ! 0)) 0, last ?x @ replicate (length (last ?x)) 0])"
      unfolding e0 using i xl lx by simp
    have nz: "demos_x \<noteq> []" using i by (cases demos_x) simp_all
    from xin ne have "?x ! 0 \<in> set ?x" "last ?x \<in> set ?x" by simp_all
    with xin rows have "length (?x ! 0) = D" "length (last ?x) = D" by blast+
    then have b0: "length (?x ! 0 @ replicate (length (?x ! 0)) 0) = 2 * D"
      and b1: "length (last ?x @ replicate (length (last ?x)) 0) = 2 * D"
      by simp_all
    have r: "\<forall>r\<in>set (xdx ! i). length r = 2 * D" using xi [OF i] by blast
    have pos: "0 < 2 * D" using D by simp
    from in_frames_shape [OF r K [OF nz] pos b0 b1]
    show ?thesis unfolding e by simp
  qed
  from for_append_prop [of ?z2 in_frames ?P2, OF this]
  obtain xf where f1: "for_append in_frames ?z2 = Inr xf"
    and fl: "length xf = length ?z2"
    and fi: "\<forall>i<length ?z2. ?P2 (?z2 ! i) (xf ! i)"
    by blast
  have fl': "length xf = ?n" using fl z2l by simp
  have fshape: "length (xf ! i) = length (demos_x ! i) \<and>
      (\<forall>m\<in>set (xf ! i). length m = 2 \<and> (\<forall>v\<in>set m. length v = 2 * D))"
    if i: "i < ?n" for i
  proof -
    have "i < length ?z2" using i z2l by simp
    with fi have "?P2 (?z2 ! i) (xf ! i)" by blast
    moreover have "fst (?z2 ! i) = xdx ! i" using i xl by simp
    moreover have "length (xdx ! i) = length (demos_x ! i)" using xi [OF i] by blast
    ultimately show ?thesis by simp
  qed
  \<comment> \<open>the reshape\<close>
  let ?g = "\<lambda>d. ebind (py_get xdx 0) (\<lambda>xdx0.
              ebind (py_get xdx0 0) (\<lambda>p.
              reshape_rows (int (length p) * 2) (concat (map concat d))))"
  let ?P3 = "\<lambda>d y. length y = length d \<and> (\<forall>r\<in>set y. length r = 4 * D)"
  have "\<exists>y. ?g d = Inr y \<and> ?P3 d y" if "d \<in> set xf" for d
  proof -
    from that obtain i where "i < length xf" and d: "d = xf ! i"
      unfolding in_set_conv_nth by blast
    then have i: "i < ?n" using fl' by simp
    have nz: "0 < ?n" using i by linarith
    then have "length xdx \<noteq> 0" using xl by linarith
    then have "xdx \<noteq> []" by (metis length_0_conv)
    then have x0: "py_get xdx 0 = Inr (xdx ! 0)" by (rule py_get_first)
    have "demos_x ! 0 \<in> set demos_x" using nz by (rule nth_mem)
    then have "demos_x ! 0 \<noteq> []" using ne by blast
    moreover have "length (xdx ! 0) = length (demos_x ! 0)" using xi [OF nz] by blast
    ultimately have "xdx ! 0 \<noteq> []" by (metis length_0_conv)
    then have p0: "py_get (xdx ! 0) 0 = Inr (xdx ! 0 ! 0)" and "xdx ! 0 ! 0 \<in> set (xdx ! 0)"
      by (simp_all add: py_get_first)
    then have lp: "length (xdx ! 0 ! 0) = 2 * D" using xi [OF nz] by blast
    have "length (concat m) = 2 * (2 * D)" if "m \<in> set d" for m
    proof -
      from that fshape [OF i] d have "length m = 2" "\<forall>v\<in>set m. length v = 2 * D" by blast+
      then show ?thesis using length_concat_const [of m "\<lambda>v. v" "2 * D"] by simp
    qed
    then have "length (concat (map concat d)) = length d * (4 * D)"
      using length_concat_const [of d concat "4 * D"] by simp
    moreover have "0 < 4 * D" using D by simp
    ultimately obtain rows' where "reshape_rows (int (4 * D)) (concat (map concat d)) = Inr rows'"
      "length rows' = length d" "\<forall>r\<in>set rows'. length r = 4 * D"
      using reshape_rows_shape by blast
    moreover have "int (length (xdx ! 0 ! 0)) * 2 = int (4 * D)" using lp by simp
    ultimately show ?thesis using x0 p0 by simp
  qed
  from for_append_prop [of xf ?g ?P3, OF this]
  obtain augm where a1: "for_append ?g xf = Inr augm"
    and al: "length augm = length xf"
    and ai: "\<forall>i<length xf. ?P3 (xf ! i) (augm ! i)"
    by blast
  have res: "get_related_matrix demos_x = Inr (xdx, ?Ax, ?bx, xf, augm)"
    unfolding get_related_matrix_def
    by (simp only: dx ebind_Inr x1 Ab prod.case f1 a1)
  have "length (augm ! i) = length (demos_x ! i) \<and> (\<forall>r\<in>set (augm ! i). length r = 4 * D)"
    if "i < ?n" for i
    using ai fl' that fshape [OF that] by simp
  then have every: "\<forall>i<?n. length (augm ! i) = length (demos_x ! i) \<and>
      (\<forall>r\<in>set (augm ! i). length r = 4 * D)"
    by blast
  have al': "length augm = ?n" using al fl' by simp
  have bl: "length ?bx = ?n" by simp
  have bi: "\<forall>i<?n. length (?bx ! i) = length (demos_x ! i)" by (simp add: tile_def)
  show ?thesis
    by (intro exI conjI) (rule res, rule al', rule every, rule bl, rule bi, rule bxs)
qed


lemma pbd_shapes_unit: "pbd_shapes unit_pbd"
  by (auto simp: pbd_shapes_def unit_pbd_def ebind_eq_Inr split: if_splits)

text \<open>
  Claim C2. For demonstrations of points of dimension \<open>D\<close>, \<open>get_related_matrix\<close> returns
  one observation per timestep, of dimension \<open>2 * D * P\<close>, where \<open>P = 2\<close> is the number
  of frames \<open>get_A_b\<close> builds (the length of \<^verbatim>\<open>demos_b_xdx[i][t]\<close>). The model \<open>poe\<close>
  returns has dimension \<open>2 * D\<close>: it asks \<^verbatim>\<open>pbdlib\<close> for the marginals on the index
  ranges \<open>[0, 2 * D)\<close> and \<open>[2 * D, 4 * D)\<close>, and \<^verbatim>\<open>pbdlib\<close> keeps that dimension through
  \<^verbatim>\<open>lintrans\<close> and the product (\<open>pbd_shapes\<close>).
\<close>

theorem observation_and_fused_dimensions:
  assumes "\<forall>x\<in>set demos_x. x \<noteq> [] \<and> (\<forall>p\<in>set x. length p = D)" and "0 < D"
  shows "\<exists>demos_xdx demos_A_xdx demos_b_xdx demos_xdx_f demos_xdx_augm.
     get_related_matrix demos_x =
       Inr (demos_xdx, demos_A_xdx, demos_b_xdx, demos_xdx_f, demos_xdx_augm) \<and>
     length demos_xdx_augm = length demos_x \<and>
     (\<forall>i<length demos_x.
        length (demos_xdx_augm ! i) = length (demos_x ! i) \<and>
        (\<forall>t<length (demos_x ! i).
           length (demos_b_xdx ! i ! t) = 2 \<and>
           length (demos_xdx_augm ! i ! t) = 2 * D * length (demos_b_xdx ! i ! t))) \<and>
     (\<forall>lib model idx plot fused.
        pbd_shapes lib \<and>
        poe lib model demos_A_xdx demos_b_xdx demos_x idx plot = Inr (fused :: 'g) \<longrightarrow>
        nb_dim lib fused = 2 * D)"
proof -
  from related_matrix_shapes [OF assms]
  obtain xdx Ax bx xf augm
    where r: "get_related_matrix demos_x = Inr (xdx, Ax, bx, xf, augm)"
      and al: "length augm = length demos_x"
      and ai: "\<forall>i<length demos_x. length (augm ! i) = length (demos_x ! i) \<and>
          (\<forall>r\<in>set (augm ! i). length r = 4 * D)"
      and bl: "length bx = length demos_x"
      and bi: "\<forall>i<length demos_x. length (bx ! i) = length (demos_x ! i)"
      and bs: "\<forall>bs\<in>set bx. \<forall>b\<in>set bs. length b = 2 \<and> (\<forall>v\<in>set b. length v = 2 * D)"
    by blast
  have rows: "length (augm ! i) = length (demos_x ! i) \<and>
        (\<forall>t<length (demos_x ! i).
           length (bx ! i ! t) = 2 \<and> length (augm ! i ! t) = 2 * D * length (bx ! i ! t))"
    if i: "i < length demos_x" for i
  proof -
    have la: "length (augm ! i) = length (demos_x ! i)" using ai i by blast
    have "length (bx ! i ! t) = 2 \<and> length (augm ! i ! t) = 2 * D * length (bx ! i ! t)"
      if t: "t < length (demos_x ! i)" for t
    proof -
      have "bx ! i \<in> set bx" using i bl by simp
      moreover have "bx ! i ! t \<in> set (bx ! i)" using bi i t by simp
      ultimately have 2: "length (bx ! i ! t) = 2" using bs by blast
      have "augm ! i ! t \<in> set (augm ! i)" using la t by simp
      then have "length (augm ! i ! t) = 4 * D" using ai i by blast
      with 2 show ?thesis by simp
    qed
    with la show ?thesis by blast
  qed
  have fused: "nb_dim lib fused = 2 * D"
    if "pbd_shapes lib \<and> poe lib model Ax bx demos_x idx plot = Inr fused"
    for lib :: "'g pbd" and model idx plot fused
  proof -
    from bs have c: "\<forall>bs\<in>set bx. \<forall>b\<in>set bs. \<forall>v\<in>set b. length v = 2 * D" by blast
    from that have a: "pbd_shapes lib" and b: "poe lib model Ax bx demos_x idx plot = Inr fused"
      by blast+
    from poe_dim [OF a b c] show ?thesis .
  qed
  have every: "\<forall>i<length demos_x.
        length (augm ! i) = length (demos_x ! i) \<and>
        (\<forall>t<length (demos_x ! i).
           length (bx ! i ! t) = 2 \<and> length (augm ! i ! t) = 2 * D * length (bx ! i ! t))"
    using rows by blast
  have fused': "\<forall>lib model idx plot fused.
        pbd_shapes lib \<and> poe lib model Ax bx demos_x idx plot = Inr (fused :: 'g) \<longrightarrow>
        nb_dim lib fused = 2 * D"
    using fused by blast
  show ?thesis
    by (intro exI conjI) (rule r, rule al, rule every, rule fused')
qed


lemma example_related:
  "get_related_matrix [[[1, 2], [3, 5], [4, 4]]] =
     Inr ([[[1, 2, 200, 300], [3, 5, 150, 100], [4, 4, 100, - 100]]],
      [[[[[1, 0, 0, 0], [0, - 1, 0, 0], [0, 0, 1, 0], [0, 0, 0, - 1]],
         [[1, 0, 0, 0], [0, - 1, 0, 0], [0, 0, 1, 0], [0, 0, 0, - 1]]],
        [[[1, 0, 0, 0], [0, - 1, 0, 0], [0, 0, 1, 0], [0, 0, 0, - 1]],
         [[1, 0, 0, 0], [0, - 1, 0, 0], [0, 0, 1, 0], [0, 0, 0, - 1]]],
        [[[1, 0, 0, 0], [0, - 1, 0, 0], [0, 0, 1, 0], [0, 0, 0, - 1]],
         [[1, 0, 0, 0], [0, - 1, 0, 0], [0, 0, 1, 0], [0, 0, 0, - 1]]]]],
      [[[[1, 2, 0, 0], [4, 4, 0, 0]], [[1, 2, 0, 0], [4, 4, 0, 0]],
        [[1, 2, 0, 0], [4, 4, 0, 0]]]],
      [[[[0, 0, 200, - 300], [- 3, 2, 200, - 300]],
        [[2, - 3, 150, - 100], [- 1, - 1, 150, - 100]],
        [[3, - 2, 100, 100], [0, 0, 100, 100]]]],
      [[[0, 0, 200, - 300, - 3, 2, 200, - 300],
        [2, - 3, 150, - 100, - 1, - 1, 150, - 100],
        [3, - 2, 100, 100, 0, 0, 100, 100]]])"
  by code_simp

lemma example_poe:
  "poe unit_pbd (8, [[1, 1, 0, 0, 1, 1, 0, 0]])
      [[[[[1, 0, 0, 0], [0, - 1, 0, 0], [0, 0, 1, 0], [0, 0, 0, - 1]],
         [[1, 0, 0, 0], [0, - 1, 0, 0], [0, 0, 1, 0], [0, 0, 0, - 1]]],
        [[[1, 0, 0, 0], [0, - 1, 0, 0], [0, 0, 1, 0], [0, 0, 0, - 1]],
         [[1, 0, 0, 0], [0, - 1, 0, 0], [0, 0, 1, 0], [0, 0, 0, - 1]]],
        [[[1, 0, 0, 0], [0, - 1, 0, 0], [0, 0, 1, 0], [0, 0, 0, - 1]],
         [[1, 0, 0, 0], [0, - 1, 0, 0], [0, 0, 1, 0], [0, 0, 0, - 1]]]]]
      [[[[1, 2, 0, 0], [4, 4, 0, 0]], [[1, 2, 0, 0], [4, 4, 0, 0]],
        [[1, 2, 0, 0], [4, 4, 0, 0]]]]
      [[[1, 2], [3, 5], [4, 4]]] 0 False = Inr (4, [[7 / 2, 2, 0, 0]])"
  by code_simp

theorem observation_and_fused_dimensions_witness:
  "\<exists>demos_xdx demos_A_xdx demos_b_xdx demos_xdx_f demos_xdx_augm fused.
     get_related_matrix [[[1, 2], [3, 5], [4, 4]]] =
       Inr (demos_xdx, demos_A_xdx, demos_b_xdx, demos_xdx_f, demos_xdx_augm) \<and>
     length (demos_xdx_augm ! 0) = 3 \<and> length (demos_xdx_augm ! 0 ! 1) = 8 \<and>
     poe unit_pbd (8, [[1, 1, 0, 0, 1, 1, 0, 0]]) demos_A_xdx demos_b_xdx
       [[[1, 2], [3, 5], [4, 4]]] 0 False = Inr fused \<and>
     nb_dim unit_pbd fused = 4"
proof -
  let ?d = "[[[1, 2], [3, 5], [4, 4 :: real]]]"
  have rect: "\<forall>x\<in>set ?d. x \<noteq> [] \<and> (\<forall>p\<in>set x. length p = 2)" and D: "(0::nat) < 2"
    by simp_all
  from observation_and_fused_dimensions [OF rect D, where ?'g = unit_gmm]
  obtain xdx Ax bx xf augm
    where r: "get_related_matrix ?d = Inr (xdx, Ax, bx, xf, augm)"
      and rows: "\<forall>i<length ?d.
        length (augm ! i) = length (?d ! i) \<and>
        (\<forall>t<length (?d ! i).
           length (bx ! i ! t) = 2 \<and> length (augm ! i ! t) = 2 * 2 * length (bx ! i ! t))"
      and dim: "\<forall>lib model idx plot fused.
        pbd_shapes lib \<and> poe lib model Ax bx ?d idx plot = Inr (fused :: unit_gmm) \<longrightarrow>
        nb_dim lib fused = 2 * 2"
    by blast
  have 0: "0 < length ?d" by simp
  from rows 0 have l: "length (augm ! 0) = length (?d ! 0)"
    and t: "\<forall>t<length (?d ! 0).
           length (bx ! 0 ! t) = 2 \<and> length (augm ! 0 ! t) = 2 * 2 * length (bx ! 0 ! t)"
    by blast+
  from l have l3: "length (augm ! 0) = 3" by simp
  have "1 < length (?d ! 0)" by simp
  with t have "length (bx ! 0 ! 1) = 2 \<and> length (augm ! 0 ! 1) = 2 * 2 * length (bx ! 0 ! 1)"
    by blast
  then have l8: "length (augm ! 0 ! 1) = 8" by simp
  from r have p: "poe unit_pbd (8, [[1, 1, 0, 0, 1, 1, 0, 0]]) Ax bx ?d 0 False =
      Inr (4, [[7 / 2, 2, 0, 0]])"
    unfolding example_related using example_poe by simp
  with dim pbd_shapes_unit have "nb_dim unit_pbd (4, [[7 / 2, 2, 0, 0 :: real]]) = 2 * 2"
    by blast
  then have "nb_dim unit_pbd (4, [[7 / 2, 2, 0, 0 :: real]]) = 4" by simp
  with r l3 l8 p show ?thesis by blast
qed

section \<open>Linear algebra on lists\<close>


lemma dot_sum:
  assumes "length u = length v"
  shows "dot u v = (\<Sum>i = 0..<length u. u ! i * v ! i)"
proof -
  have "dot u v = (\<Sum>i = 0..<length (map2 (*) u v). map2 (*) u v ! i)"
    unfolding dot_def by (rule sum_list_sum_nth)
  also have "\<dots> = (\<Sum>i = 0..<length u. u ! i * v ! i)"
    using assms by (intro sum.cong) simp_all
  finally show ?thesis .
qed

lemma nth_column: "i < length M \<Longrightarrow> column M j ! i = M ! i ! j"
  by (simp add: column_def)

lemma length_column: "length (column M j) = length M"
  by (simp add: column_def)

lemma nth_vec_mat: "j < ncols Y \<Longrightarrow> vec_mat r Y ! j = dot r (column Y j)"
  by (simp add: vec_mat_def)

text \<open>A row vector times a matrix times a column vector, associated either way.\<close>

lemma dot_vec_mat:
  assumes "is_mat m c Y" and "length r = m" and "length x = c" and "0 < m"
  shows "dot (vec_mat r Y) x = dot r (map (\<lambda>row. dot row x) Y)"
proof -
  have nc: "ncols Y = c" using assms(1,4) by (rule ncols_is_mat)
  have lY: "length Y = m" and rows: "\<And>i. i < m \<Longrightarrow> length (Y ! i) = c"
    using assms(1) by (auto simp: is_mat_iff)
  have "dot (vec_mat r Y) x = (\<Sum>j = 0..<c. vec_mat r Y ! j * x ! j)"
    using assms(3) nc by (simp add: dot_sum length_vec_mat)
  also have "\<dots> = (\<Sum>j = 0..<c. (\<Sum>i = 0..<m. r ! i * Y ! i ! j) * x ! j)"
    using nc assms(2) lY
    by (intro sum.cong) (simp_all add: nth_vec_mat dot_sum length_column nth_column)
  also have "\<dots> = (\<Sum>j = 0..<c. \<Sum>i = 0..<m. r ! i * (Y ! i ! j * x ! j))"
    by (simp add: sum_distrib_right mult.assoc)
  also have "\<dots> = (\<Sum>i = 0..<m. \<Sum>j = 0..<c. r ! i * (Y ! i ! j * x ! j))"
    by (rule sum.swap)
  also have "\<dots> = (\<Sum>i = 0..<m. r ! i * (\<Sum>j = 0..<c. Y ! i ! j * x ! j))"
    by (simp add: sum_distrib_left)
  also have "\<dots> = (\<Sum>i = 0..<m. r ! i * map (\<lambda>row. dot row x) Y ! i)"
    using lY rows assms(3) by (intro sum.cong) (simp_all add: dot_sum)
  also have "\<dots> = dot r (map (\<lambda>row. dot row x) Y)"
    using assms(2) lY by (simp add: dot_sum)
  finally show ?thesis .
qed

lemma dot_append:
  "length a = length u \<Longrightarrow> dot (a @ b) (u @ v) = dot a u + dot b v"
  by (simp add: dot_def)

lemma dot_zeros: "dot (replicate k 0) u = 0"
proof -
  have "map2 (*) (replicate k (0::real)) u = replicate (min k (length u)) 0"
    by (induction k arbitrary: u) (auto simp: zip_Cons1 split: list.splits)
  then show ?thesis by (simp add: dot_def sum_list_replicate)
qed

lemma dot_Nil: "dot [] u = 0"
  by (simp add: dot_def)

lemma dot_pad:
  "dot (a @ replicate k 0) u = dot a (take (length a) u)"
proof -
  have "dot (a @ replicate k 0) u =
      dot a (take (length a) u) + dot (replicate k 0) (drop (length a) u)"
    by (simp add: dot_def zip_append1)
  then show ?thesis by (simp add: dot_zeros)
qed

lemma dot_add_right:
  assumes "length a = length b"
  shows "dot r (map2 (+) a b) = dot r a + dot r b"
  using assms
proof (induction a b arbitrary: r rule: list_induct2)
  case Nil
  then show ?case by (simp add: dot_def)
next
  case (Cons x xs y ys)
  then show ?case by (cases r) (simp_all add: dot_def algebra_simps)
qed

lemma nth_eye: "i < n \<Longrightarrow> j < n \<Longrightarrow> eye n ! i ! j = (if i = j then 1 else 0)"
  by (simp add: eye_def)

lemma dot_eye:
  assumes "i < n" and "length x = n"
  shows "dot (eye n ! i) x = x ! i"
proof -
  have l: "length (eye n ! i) = n" using assms(1) by (simp add: eye_def)
  have "dot (eye n ! i) x = (\<Sum>j = 0..<n. eye n ! i ! j * x ! j)"
    using l assms(2) by (simp add: dot_sum)
  also have "\<dots> = (\<Sum>j = 0..<n. if j = i then x ! j else 0)"
    using assms(1) by (intro sum.cong) (auto simp: nth_eye)
  also have "\<dots> = x ! i" using assms(1) by simp
  finally show ?thesis .
qed

section \<open>The loop of \<open>set_dynamical_system\<close>\<close>


lemma for_state_upt:
  assumes "I a s" and "a \<le> b"
    and "\<And>i s. a \<le> i \<Longrightarrow> i < b \<Longrightarrow> I i s \<Longrightarrow> \<exists>s'. body i s = Inr s' \<and> I (Suc i) s'"
  shows "\<exists>s'. for_state body [a..<b] s = Inr s' \<and> I b s'"
  using assms
proof (induction "b - a" arbitrary: a s)
  case 0
  then show ?case by simp
next
  case (Suc k)
  then have ab: "a < b" by simp
  with Suc.prems obtain s1 where s1: "body a s = Inr s1" "I (Suc a) s1" by blast
  have "\<exists>s'. for_state body [Suc a..<b] s1 = Inr s' \<and> I b s'"
  proof (rule Suc.hyps(1))
    show "k = b - Suc a" using Suc.hyps(2) by simp
    show "I (Suc a) s1" by (rule s1)
    show "Suc a \<le> b" using ab by simp
    show "\<exists>s'. body i s = Inr s' \<and> I (Suc i) s'" if "Suc a \<le> i" "i < b" "I i s" for i s
      using Suc.prems(3) [of i s] that by simp
  qed
  then show ?case using ab s1 by (simp add: upt_rec [of a b])
qed

lemma py_slice_nat:
  "py_slice (int a) (int b) len = (min a len, max (min a len) (min b len))"
  by (simp add: py_slice_def Let_def)

lemma set_block_rows:
  assumes "set_block (r0, r1) (c0, c1) X V = Inr X'" and "r0 \<le> r1" and "r1 \<le> length X"
  shows "length X' = length X"
    and "r < length X \<Longrightarrow>
         X' ! r = (if r0 \<le> r \<and> r < r1 then take c0 (X ! r) @ V ! (r - r0) @ drop c1 (X ! r)
                   else X ! r)"
proof -
  have V: "length V = r1 - r0" and X': "X' = take r0 X @
               map2 (\<lambda>row v. take c0 row @ v @ drop c1 row) (take (r1 - r0) (drop r0 X)) V @
               drop r1 X"
    using assms(1) by (auto simp: set_block_def is_mat_iff split: if_splits)
  show "length X' = length X" unfolding X' using V assms(2,3) by simp
  show "X' ! r = (if r0 \<le> r \<and> r < r1 then take c0 (X ! r) @ V ! (r - r0) @ drop c1 (X ! r)
                   else X ! r)" if "r < length X"
    unfolding X' using V assms(2,3) that
    by (auto simp: nth_append min_def)
qed

lemma set_block_ok:
  "is_mat (r1 - r0) (c1 - c0) V \<Longrightarrow> \<exists>X'. set_block (r0, r1) (c0, c1) X V = Inr X'"
  by (simp add: set_block_def)

lemma set_map2:
  assumes "z \<in> set (map2 f xs ys)"
  obtains i where "i < length xs" and "i < length ys" and "z = f (xs ! i) (ys ! i)"
  using assms by (auto simp: in_set_conv_nth)

lemma is_mat_input_block:
  assumes "is_mat nv nv A" and "is_mat nv n B" and "0 < nv"
  shows "is_mat nv (t * n) (input_block A B t)"
proof (induction t)
  case 0
  then show ?case using assms(1) by (simp add: is_mat_iff)
next
  case (Suc t)
  have "length row = t * n + n" if "row \<in> set (input_block A B (Suc t))" for row
  proof -
    let ?AM = "map (\<lambda>r. vec_mat r (input_block A B t)) A"
    from that have "row \<in> set (map2 (@) ?AM B)" by simp
    then obtain i where "i < length ?AM" and iB: "i < length B" and "row = ?AM ! i @ B ! i"
      by (rule set_map2)
    then have "row = vec_mat (A ! i) (input_block A B t) @ B ! i" by simp
    moreover have "B ! i \<in> set B" using iB by simp
    moreover have "ncols (input_block A B t) = t * n"
      using Suc assms(3) by (rule ncols_is_mat)
    ultimately show ?thesis using assms(2) by (auto simp: is_mat_iff length_vec_mat)
  qed
  then show ?case using assms by (simp add: is_mat_iff)
qed


lemma nth_concat_const:
  assumes "\<And>x. x \<in> set xs \<Longrightarrow> length (f x) = k" and "i < length xs" and "j < k"
  shows "concat (map f xs) ! (i * k + j) = f (xs ! i) ! j"
  using assms
proof (induction xs arbitrary: i)
  case Nil
  then show ?case by simp
next
  case (Cons x xs)
  show ?case
  proof (cases i)
    case 0
    then show ?thesis using Cons.prems by (simp add: nth_append)
  next
    case (Suc i')
    have "concat (map f xs) ! (i' * k + j) = f (xs ! i') ! j"
      using Cons.prems Suc by (intro Cons.IH) simp_all
    then show ?thesis using Cons.prems Suc by (simp add: nth_append)
  qed
qed

lemma length_row_power:
  assumes "is_mat nv nv A" and "0 < nv" and "length r = nv"
  shows "length (row_power A t r) = nv"
proof (cases t)
  case 0
  then show ?thesis using assms(3) by (simp add: row_power_def)
next
  case (Suc k)
  then show ?thesis using ncols_is_mat [OF assms(1,2)] by (simp add: row_power_def length_vec_mat)
qed

lemma row_power_Suc: "row_power A (Suc t) r = vec_mat (row_power A t r) A"
  by (simp add: row_power_def)

lemma length_eye_row: "j < n \<Longrightarrow> length (eye n ! j) = n"
  by (simp add: eye_def)

lemma div_block:
  assumes "0 < (nv::nat)"
  shows "i * nv \<le> r \<longleftrightarrow> i \<le> r div nv"
  using assms by (simp add: less_eq_div_iff_mult_less_eq)

lemma transfer_step_inv:
  assumes A: "is_mat nv nv A" and B: "is_mat nv n B" and nv: "0 < nv"
    and i: "1 \<le> i" "i < T"
    and inv: "transfer_inv nv T n A B i s"
  shows "\<exists>s'. transfer_step (int nv) (int T) (int n) A B i s = Inr s' \<and>
           transfer_inv nv T n A B (Suc i) s'"
proof -
  obtain Su Sx M where s: "s = (Su, Sx, M)" by (cases s)
  from inv s have M: "M = input_block A B i" and lSx: "length Sx = T * nv"
    and lSu: "length Su = T * nv"
    and Sx: "\<And>r. r < T * nv \<Longrightarrow>
        Sx ! r = row_power A (min (r div nv) (i - 1)) (eye nv ! (r mod nv))"
    and Su: "\<And>r. r < T * nv \<Longrightarrow> Su ! r =
           (if r div nv < i
            then input_block A B (r div nv) ! (r mod nv) @ replicate (n * (T - 1) - r div nv * n) 0
            else replicate (n * (T - 1)) 0)"
    by (auto simp: transfer_inv_def)
  have lA: "length A = nv" and cA: "ncols A = nv"
    using A ncols_is_mat [OF A nv] by (auto simp: is_mat_iff)
  have lB: "length B = nv" using B by (simp add: is_mat_iff)
  have Mm: "is_mat nv (i * n) M" unfolding M using A B nv by (rule is_mat_input_block)
  then have lM: "length M = nv" and cM: "ncols M = i * n"
    using ncols_is_mat [OF Mm nv] by (auto simp: is_mat_iff)
  have "Suc i \<le> T" using i by simp
  then have "Suc i * nv \<le> T * nv" by (rule mult_le_mono1)
  then have inT2: "i * nv + nv \<le> T * nv" by (simp add: add.commute)
  then have inT1: "i * nv < T * nv" using nv by linarith
  note inT = inT1 inT2
  have rowlen: "length (Sx ! r) = nv" if "r < T * nv" for r
    using Sx [OF that] nv by (simp add: length_row_power [OF A nv] length_eye_row)
  \<comment> \<open>the rows of \<open>Sx\<close> from block \<open>i\<close> on are multiplied by \<open>A\<close>\<close>
  let ?rs = "py_slice (int i * int nv) (int T * int nv) (length Sx)"
  have rs: "?rs = (i * nv, T * nv)"
    using py_slice_nat [of "i * nv" "T * nv" "T * nv"] inT lSx by (simp add: min_def max_def)
  let ?slice = "drop (i * nv) Sx"
  have sl: "take (snd ?rs - fst ?rs) (drop (fst ?rs) Sx) = ?slice" unfolding rs using lSx by simp
  have "?slice \<noteq> []" using inT lSx by simp
  moreover have "hd ?slice = Sx ! (i * nv)" using inT lSx by (simp add: hd_drop_conv_nth)
  ultimately have "ncols ?slice = nv"
    using rowlen [OF inT(1)] by (cases ?slice) (simp_all add: ncols_def)
  then have mm1: "matmul ?slice A = Inr (map (\<lambda>r. vec_mat r A) ?slice)"
    using lA by (simp add: matmul_def)
  let ?P = "map (\<lambda>r. vec_mat r A) ?slice"
  have P: "is_mat (T * nv - i * nv) (nv - 0) ?P"
    using lSx cA by (simp add: is_mat_iff length_vec_mat)
  then obtain Sx' where Sx': "set_block (i * nv, T * nv) (0, nv) Sx ?P = Inr Sx'"
    using set_block_ok by blast
  have lSx': "length Sx' = T * nv"
    using set_block_rows(1) [OF Sx'] inT lSx by simp
  have Sx'r: "Sx' ! r = row_power A (min (r div nv) (Suc i - 1)) (eye nv ! (r mod nv))"
    if r: "r < T * nv" for r
  proof -
    have e: "Sx' ! r = (if i * nv \<le> r \<and> r < T * nv
        then take 0 (Sx ! r) @ ?P ! (r - i * nv) @ drop nv (Sx ! r) else Sx ! r)"
      using set_block_rows(2) [OF Sx'] inT lSx r by simp
    show ?thesis
    proof (cases "i * nv \<le> r")
      case True
      then have d: "i \<le> r div nv" using div_block [OF nv] by simp
      have "i * nv + (r - i * nv) = r" using True by simp
      moreover have "i * nv \<le> length Sx" using inT lSx by simp
      ultimately have sr: "?slice ! (r - i * nv) = Sx ! r" by (simp add: nth_drop)
      have "r - i * nv < length ?slice" using True r lSx by simp
      then have "?P ! (r - i * nv) = vec_mat (?slice ! (r - i * nv)) A" by (rule nth_map)
      then have "?P ! (r - i * nv) = vec_mat (Sx ! r) A" by (simp only: sr)
      with e True r have "Sx' ! r = vec_mat (Sx ! r) A" using rowlen [OF r] by simp
      also have "\<dots> = vec_mat (row_power A (i - 1) (eye nv ! (r mod nv))) A"
        using Sx [OF r] d i by (simp add: min_def)
      also have "\<dots> = row_power A i (eye nv ! (r mod nv))"
        using i row_power_Suc [of A "i - 1"] by simp
      finally show ?thesis using d by (simp add: min_def)
    next
      case False
      then have "r div nv < i" using div_block [OF nv, of i r] by simp
      then show ?thesis using e False Sx [OF r] by (simp add: min_def)
    qed
  qed
  \<comment> \<open>block \<open>i\<close> of \<open>Su\<close> receives \<open>M\<close>\<close>
  have rsu: "py_slice (int nv * int i) (int nv * int i + int (length M)) (length Su) =
      (i * nv, i * nv + nv)"
    using py_slice_nat [of "i * nv" "i * nv + nv" "T * nv"] inT lSu lM
    by (simp add: min_def max_def mult.commute)
  have "i \<le> T - 1" using i by linarith
  then have "i * n \<le> (T - 1) * n" by (rule mult_le_mono1)
  then have "i * n \<le> n * (T - 1)" by (simp add: mult.commute)
  then have "py_slice (int 0) (int (i * n)) (n * (T - 1)) = (0, i * n)"
    unfolding py_slice_nat by (simp add: min_def max_def)
  moreover have e1: "int T - 1 = int (T - 1)" using i by linarith
  have "int n * (int T - 1) = int (n * (T - 1))"
    unfolding e1 by (rule of_nat_mult [symmetric])
  then have "nat (int n * (int T - 1)) = n * (T - 1)" by (simp only: nat_int)
  ultimately have csu: "py_slice 0 (int (ncols M)) (nat (int n * (int T - 1))) = (0, i * n)"
    using cM by simp
  have "is_mat (i * nv + nv - i * nv) (i * n - 0) M" using Mm by simp
  then obtain Su' where Su': "set_block (i * nv, i * nv + nv) (0, i * n) Su M = Inr Su'"
    using set_block_ok by blast
  have lSu': "length Su' = T * nv"
    using set_block_rows(1) [OF Su'] inT lSu by simp
  have Su'r: "Su' ! r =
           (if r div nv < Suc i
            then input_block A B (r div nv) ! (r mod nv) @ replicate (n * (T - 1) - r div nv * n) 0
            else replicate (n * (T - 1)) 0)"
    if r: "r < T * nv" for r
  proof -
    have e: "Su' ! r = (if i * nv \<le> r \<and> r < i * nv + nv
        then take 0 (Su ! r) @ M ! (r - i * nv) @ drop (i * n) (Su ! r) else Su ! r)"
      using set_block_rows(2) [OF Su'] inT lSu r by simp
    show ?thesis
    proof (cases "i * nv \<le> r \<and> r < i * nv + nv")
      case True
      then have "i \<le> r div nv" using div_block [OF nv, of i r] by simp
      moreover have "\<not> Suc i \<le> r div nv" using True div_block [OF nv, of "Suc i" r] by simp
      ultimately have d: "r div nv = i" by linarith
      have "r mod nv = r - r div nv * nv" by (simp add: minus_div_mult_eq_mod)
      then have m: "r mod nv = r - i * nv" using d by simp
      have "Su ! r = replicate (n * (T - 1)) 0" using Su [OF r] d by simp
      with e True show ?thesis using d m M by simp
    next
      case False
      have "r div nv \<noteq> i"
      proof
        assume d: "r div nv = i"
        then have "i * nv \<le> r" using div_block [OF nv, of i r] by simp
        moreover have "\<not> Suc i * nv \<le> r" using d div_block [OF nv, of "Suc i" r] by simp
        ultimately show False using False by simp
      qed
      then have "(r div nv < Suc i) = (r div nv < i)" by auto
      with e False Su [OF r] show ?thesis by simp
    qed
  qed
  \<comment> \<open>the next block\<close>
  have mm2: "matmul A M = Inr (map (\<lambda>r. vec_mat r M) A)"
    using cA lM by (simp add: matmul_def)
  have hs: "hstack (map (\<lambda>r. vec_mat r M) A) B = Inr (input_block A B (Suc i))"
    using lA lB M by (simp add: hstack_def)
  have "transfer_step (int nv) (int T) (int n) A B i s = Inr (Su', Sx', input_block A B (Suc i))"
    unfolding transfer_step_def s prod.case Let_def sl
    by (simp only: rs mm1 ebind_Inr nat_int Sx' rsu csu Su' mm2 hs)
  moreover have "transfer_inv nv T n A B (Suc i) (Su', Sx', input_block A B (Suc i))"
    unfolding transfer_inv_def prod.case using lSx' lSu' Sx'r Su'r by blast
  ultimately show ?thesis by blast
qed


lemma kron_ones_nth:
  assumes "r < T * nv"
  shows "kron (replicate T [1]) (eye nv) ! r = eye nv ! (r mod nv)"
    and "length (kron (replicate T [1]) (eye nv)) = T * nv"
proof -
  have k: "kron (replicate T [1]) (eye nv) = concat (map (\<lambda>_. eye nv) (replicate T [1::real]))"
  proof -
    have "(*) (1::real) = (\<lambda>x. x)" by (rule ext) simp
    then show ?thesis unfolding kron_def by (simp add: comp_def)
  qed
  have nv: "0 < nv" using assms by (cases nv) simp_all
  have l: "length (eye nv) = nv" by (simp add: eye_def)
  have "r div nv < T" using assms nv by (simp add: less_mult_imp_div_less)
  then have "concat (map (\<lambda>_. eye nv) (replicate T [1::real])) ! (r div nv * nv + r mod nv) =
      eye nv ! (r mod nv)"
    using nv l by (intro nth_concat_const) simp_all
  then show "kron (replicate T [1]) (eye nv) ! r = eye nv ! (r mod nv)"
    unfolding k by simp
  show "length (kron (replicate T [1]) (eye nv)) = T * nv"
    unfolding k using l length_concat_const [of "replicate T [1::real]" "\<lambda>_. eye nv" nv] by simp
qed

lemma input_block_1:
  assumes "length A = length B"
  shows "input_block A B 1 = B"
proof -
  have "vec_mat r (map (\<lambda>_. []) A) = []" for r
    by (cases A) (simp_all add: vec_mat_def ncols_def)
  then have "input_block A B 1 = map2 (@) (map (\<lambda>_. []) A) B" by simp
  also have "\<dots> = B" using assms
    by (induction A B rule: list_induct2) simp_all
  finally show ?thesis .
qed

lemma transfer_ok:
  assumes p: "param ''nb_var'' = Some (IntV (int nv))" "param ''nbData'' = Some (IntV (int T))"
      "param ''nbVarPos'' = Some (IntV (int n))"
    and A: "is_mat nv nv A" and B: "is_mat nv n B" and nv: "0 < nv" and T: "1 \<le> T"
  shows "\<exists>Su Sx. transfer param A B = Inr (Su, Sx) \<and>
      length Sx = T * nv \<and> length Su = T * nv \<and>
      (\<forall>r<T * nv. Sx ! r = row_power A (r div nv) (eye nv ! (r mod nv))) \<and>
      (\<forall>r<T * nv. Su ! r =
         input_block A B (r div nv) ! (r mod nv) @ replicate (n * (T - 1) - r div nv * n) 0)"
proof -
  have lA: "length A = nv" and lB: "length B = nv" using A B by (auto simp: is_mat_iff)
  let ?Su0 = "replicate (nv * T) (replicate (n * (T - 1)) (0::real))"
  let ?Sx0 = "kron (replicate T [1]) (eye nv)"
  have e1: "int T - 1 = int (T - 1)" using T by linarith
  have "int n * (int T - 1) = int (n * (T - 1))"
    unfolding e1 by (rule of_nat_mult [symmetric])
  then have z: "np_zeros (int nv * int T) (int n * (int T - 1)) = Inr ?Su0"
    by (simp add: np_zeros_def nat_mult_distrib flip: of_nat_mult)
  have o: "np_ones (int T) 1 = Inr (replicate T [1])" by (simp add: np_ones_def)
  have id: "np_identity (int nv) = Inr (eye nv)" by (simp add: np_identity_def)
  have init: "transfer_inv nv T n A B 1 (?Su0, ?Sx0, B)"
  proof -
    have "?Su0 ! r =
           (if r div nv < 1
            then input_block A B (r div nv) ! (r mod nv) @ replicate (n * (T - 1) - r div nv * n) 0
            else replicate (n * (T - 1)) 0)" if "r < T * nv" for r
    proof (cases "r div nv < 1")
      case True
      then have "r div nv = 0" by simp
      moreover have "r mod nv < length A" using lA nv by simp
      ultimately show ?thesis using that by (simp add: mult.commute)
    next
      case False
      then show ?thesis using that by (simp add: mult.commute)
    qed
    moreover have "?Sx0 ! r = row_power A (min (r div nv) (1 - 1)) (eye nv ! (r mod nv))"
      if "r < T * nv" for r
      using kron_ones_nth(1) [OF that] by (simp add: row_power_def)
    moreover have "length ?Sx0 = T * nv"
    proof -
      have "0 < T * nv" using T nv by simp
      then show ?thesis by (rule kron_ones_nth(2))
    qed
    moreover have "B = input_block A B 1" using input_block_1 lA lB by simp
    moreover have "length ?Su0 = T * nv" by (simp add: mult.commute)
    ultimately show ?thesis unfolding transfer_inv_def prod.case by blast
  qed
  have "\<exists>s'. for_state (transfer_step (int nv) (int T) (int n) A B) [1..<T] (?Su0, ?Sx0, B) = Inr s' \<and>
      transfer_inv nv T n A B T s'"
    using init T
  proof (rule for_state_upt)
    fix i s assume "1 \<le> i" "i < T" "transfer_inv nv T n A B i s"
    then show "\<exists>s'. transfer_step (int nv) (int T) (int n) A B i s = Inr s' \<and>
        transfer_inv nv T n A B (Suc i) s'"
      using transfer_step_inv [OF A B nv] by blast
  qed
  then obtain Su Sx M
    where run: "for_state (transfer_step (int nv) (int T) (int n) A B) [1..<T] (?Su0, ?Sx0, B) =
        Inr (Su, Sx, M)"
      and fin: "transfer_inv nv T n A B T (Su, Sx, M)"
    by (metis prod_cases3)
  have pi: "param_int param ''nb_var'' = Inr (int nv)" "param_int param ''nbData'' = Inr (int T)"
    "param_int param ''nbVarPos'' = Inr (int n)"
    using p by (simp_all add: param_int_def param_get_def)
  have tr: "transfer param A B = Inr (Su, Sx)"
    unfolding transfer_def
    by (simp only: pi ebind_Inr z o id nat_int run prod.case)
  have dv: "r div nv < T" "min (r div nv) (T - 1) = r div nv" if "r < T * nv" for r
  proof -
    show "r div nv < T" using that nv by (simp add: less_mult_imp_div_less)
    then show "min (r div nv) (T - 1) = r div nv" by simp
  qed
  from fin have "length Sx = T * nv" "length Su = T * nv"
    and "\<forall>r<T * nv. Sx ! r = row_power A (r div nv) (eye nv ! (r mod nv))"
    and "\<forall>r<T * nv. Su ! r =
         input_block A B (r div nv) ! (r mod nv) @ replicate (n * (T - 1) - r div nv * n) 0"
    unfolding transfer_inv_def prod.case using dv by auto
  with tr show ?thesis by blast
qed

section \<open>Gauss-Jordan elimination inverts\<close>

lemma dot_scale_left: "dot (map (\<lambda>a. a / c) r) y = dot r y / c"
proof (induction r arbitrary: y)
  case Nil
  then show ?case by (simp add: dot_def)
next
  case (Cons a r)
  then show ?case by (cases y) (simp_all add: dot_def add_divide_distrib)
qed

lemma dot_axpy_left:
  assumes "length u = length v"
  shows "dot (map2 (\<lambda>a b. a - c * b) u v) y = dot u y - c * dot v y"
  using assms
proof (induction u v arbitrary: y rule: list_induct2)
  case Nil
  then show ?case by (simp add: dot_def)
next
  case (Cons a u b v)
  show ?case
  proof (cases y)
    case Nil
    then show ?thesis by (simp add: dot_def)
  next
    case (Cons e y')
    have "dot (map2 (\<lambda>a b. a - c * b) u v) y' = dot u y' - c * dot v y'" by (rule Cons.IH)
    then have "sum_list (map2 (*) (map2 (\<lambda>a b. a - c * b) u v) y') =
        sum_list (map2 (*) u y') - c * sum_list (map2 (*) v y')" by (simp add: dot_def)
    then show ?thesis using Cons by (simp add: dot_def algebra_simps)
  qed
qed

lemma vec_mat_scale: "vec_mat (map (\<lambda>a. a / c) r) X = map (\<lambda>a. a / c) (vec_mat r X)"
  by (simp add: vec_mat_def dot_scale_left)

lemma vec_mat_axpy:
  assumes "length u = length v"
  shows "vec_mat (map2 (\<lambda>a b. a - c * b) u v) X =
     map2 (\<lambda>a b. a - c * b) (vec_mat u X) (vec_mat v X)"
  by (simp add: vec_mat_def dot_axpy_left [OF assms] map2_map_map)

lemma good_scale: "good n X w \<Longrightarrow> good n X (map (\<lambda>a. a / c) w)"
  by (simp add: good_def take_map drop_map vec_mat_scale)

lemma good_axpy:
  assumes "good n X u" and "good n X v"
  shows "good n X (map2 (\<lambda>a b. a - c * b) u v)"
proof -
  have l: "length (drop n u) = length (drop n v)" using assms by (simp add: good_def)
  have "take n (map2 (\<lambda>a b. a - c * b) u v) =
      map2 (\<lambda>a b. a - c * b) (take n u) (take n v)"
    by (simp add: take_map take_zip)
  also have "\<dots> = map2 (\<lambda>a b. a - c * b) (vec_mat (drop n u) X) (vec_mat (drop n v) X)"
    using assms by (simp add: good_def)
  also have "\<dots> = vec_mat (map2 (\<lambda>a b. a - c * b) (drop n u) (drop n v)) X"
    using l by (rule vec_mat_axpy [symmetric])
  also have "\<dots> = vec_mat (drop n (map2 (\<lambda>a b. a - c * b) u v)) X"
    by (simp add: drop_map drop_zip)
  finally show ?thesis using assms by (simp add: good_def)
qed

lemma pivot_row_Some:
  assumes "pivot_row j W = Some p"
  shows "j \<le> p \<and> p < length W \<and> W ! p ! j \<noteq> 0"
proof -
  from assms have "p \<in> set [j..<length W] \<and> W ! p ! j \<noteq> 0"
    unfolding pivot_row_def find_Some_iff by (metis nth_mem)
  then show ?thesis by simp
qed

lemma pivot_row_None:
  assumes "pivot_row j W = None" and "j \<le> p" and "p < length W"
  shows "W ! p ! j = 0"
  using assms unfolding pivot_row_def find_None_iff by simp

lemma pivot_exists:
  assumes inv: "elim_inv n X j W" and j: "j < n" and X: "is_mat n n X"
    and kf: "kernel_free n X"
  shows "pivot_row j W \<noteq> None"
proof
  assume none: "pivot_row j W = None"
  have lW: "length W = n" and gd: "\<And>i. i < n \<Longrightarrow> good n X (W ! i)"
    and un: "\<And>i c. i < n \<Longrightarrow> c < j \<Longrightarrow> W ! i ! c = (if i = c then 1 else 0)"
    and kE: "kernel_free n (map (drop n) W)"
    using inv by (simp_all add: elim_inv_def)
  have np: "0 < n" using j by simp
  define v where "v = map (\<lambda>c. if c < j then - (W ! c ! j) else if c = j then 1 else 0) [0..<n]"
  have lv: "length v = n" by (simp add: v_def)
  have z: "W ! p ! j = 0" if "j \<le> p" "p < n" for p
    using pivot_row_None [OF none that(1)] that(2) lW by simp
  have dv: "dot (take n (W ! i)) v = 0" if i: "i < n" for i
  proof -
    have li: "length (W ! i) = 2 * n" using gd [OF i] by (simp add: good_def)
    then have lt: "length (take n (W ! i)) = length v" using lv by simp
    have "dot (take n (W ! i)) v = (\<Sum>c = 0..<n. take n (W ! i) ! c * v ! c)"
      using dot_sum [OF lt] li by simp
    also have "\<dots> = (\<Sum>c = 0..<n. (if c = i then (if i < j then - (W ! i ! j) else 0) else 0) +
        (if c = j then W ! i ! j else 0))"
    proof (intro sum.cong refl)
      fix c assume "c \<in> {0..<n}"
      then have c: "c < n" by simp
      have vc: "v ! c = (if c < j then - (W ! c ! j) else if c = j then 1 else 0)"
        using c by (simp add: v_def)
      have tc: "take n (W ! i) ! c = W ! i ! c" using c by simp
      consider "c < j" | "c = j" | "j < c" by linarith
      then show "take n (W ! i) ! c * v ! c =
          (if c = i then (if i < j then - (W ! i ! j) else 0) else 0) +
          (if c = j then W ! i ! j else 0)"
      proof cases
        case 1
        then show ?thesis unfolding tc vc using un [OF i 1] by auto
      next
        case 2
        then show ?thesis unfolding tc vc by simp
      next
        case 3
        then show ?thesis unfolding tc vc by simp
      qed
    qed
    also have "\<dots> = (if i < j then - (W ! i ! j) else 0) + W ! i ! j"
      using i j by (simp add: sum.distrib)
    also have "\<dots> = 0" using z [of i] i by simp
    finally show ?thesis .
  qed
  define y where "y = map (\<lambda>row. dot row v) X"
  have ly: "length y = n" using X by (simp add: y_def is_mat_iff)
  have "dot r y = 0" if "r \<in> set (map (drop n) W)" for r
  proof -
    from that obtain i where i: "i < n" and r: "r = drop n (W ! i)"
      using lW by (auto simp: in_set_conv_nth)
    have lr: "length r = n" using gd [OF i] by (simp add: good_def r)
    have "take n (W ! i) = vec_mat r X" using gd [OF i] by (simp add: good_def r)
    then have "dot (vec_mat r X) v = 0" using dv [OF i] by simp
    then show ?thesis unfolding y_def using dot_vec_mat [OF X lr lv np] by simp
  qed
  with kE ly have y0: "\<forall>k<n. y ! k = 0" unfolding kernel_free_def by blast
  have "dot r v = 0" if "r \<in> set X" for r
  proof -
    from that obtain k where k: "k < length X" and r: "r = X ! k"
      by (auto simp: in_set_conv_nth)
    have "k < n" using k X by (simp add: is_mat_iff)
    with y0 have "y ! k = 0" by simp
    then show ?thesis using k by (simp add: y_def r)
  qed
  with kf lv have "\<forall>k<n. v ! k = 0" unfolding kernel_free_def by blast
  then have "v ! j = 0" using j by simp
  moreover have "v ! j = 1" using j by (simp add: v_def)
  ultimately show False by simp
qed

lemma eliminate_inv:
  assumes inv: "elim_inv n X j W" and j: "j < n" and p: "pivot_row j W = Some p"
  shows "\<exists>W'. eliminate j W = Inr W' \<and> elim_inv n X (Suc j) W'"
proof -
  have lW: "length W = n" and gd: "\<And>i. i < n \<Longrightarrow> good n X (W ! i)"
    and un: "\<And>i c. i < n \<Longrightarrow> c < j \<Longrightarrow> W ! i ! c = (if i = c then 1 else 0)"
    and kE: "kernel_free n (map (drop n) W)"
    using inv by (simp_all add: elim_inv_def)
  from pivot_row_Some [OF p] have jp: "j \<le> p" and pn: "p < n" and piv: "W ! p ! j \<noteq> 0"
    using lW by simp_all
  define W1 where "W1 = W[p := W ! j, j := W ! p]"
  define row where "row = map (\<lambda>a. a / W ! p ! j) (W ! p)"
  define W' where "W' = map (\<lambda>i. if i = j then row
      else map2 (\<lambda>a b. a - W1 ! i ! j * b) (W1 ! i) row) [0..<n]"
  have el: "eliminate j W = Inr W'"
    by (simp add: eliminate_def p Let_def W'_def row_def W1_def lW)
  have W1: "W1 ! i = (if i = j then W ! p else if i = p then W ! j else W ! i)" if "i < n" for i
    using that lW j pn by (simp add: W1_def nth_list_update)
  have g1: "good n X (W1 ! i)" if "i < n" for i
    using that W1 [OF that] gd j pn by simp
  have grow: "good n X row" unfolding row_def using gd [OF pn] by (rule good_scale)
  have W'i: "W' ! i = (if i = j then row else map2 (\<lambda>a b. a - W1 ! i ! j * b) (W1 ! i) row)"
    if "i < n" for i using that by (simp add: W'_def)
  have l2: "length (W ! i) = 2 * n" if "i < n" for i using gd [OF that] by (simp add: good_def)
  have l1: "length (W1 ! i) = 2 * n" if "i < n" for i using g1 [OF that] by (simp add: good_def)
  have lrow: "length row = 2 * n" using grow by (simp add: good_def)
  have rowc: "row ! c = W ! p ! c / W ! p ! j" if "c < 2 * n" for c
    using that l2 [OF pn] by (simp add: row_def)
  have axc: "map2 (\<lambda>a b. a - k * b) (W1 ! i) row ! c = W1 ! i ! c - k * row ! c"
    if "i < n" "c < 2 * n" for i c k
    using that l1 [OF that(1)] lrow by simp
  have a: "length W' = n" by (simp add: W'_def)
  have b: "good n X (W' ! i)" if i: "i < n" for i
    unfolding W'i [OF i] using grow g1 [OF i] by (simp add: good_axpy)
  have rowlow: "row ! c = 0" if "c < j" for c
  proof -
    have "W ! p ! c = 0" using un [OF pn that] that jp by simp
    then show ?thesis using rowc [of c] that j by simp
  qed
  have rowj: "row ! j = 1" using rowc [of j] j piv by simp
  have c: "W' ! i ! c = (if i = c then 1 else 0)" if i: "i < n" and c: "c < Suc j" for i c
  proof (cases "i = j")
    case True
    then show ?thesis unfolding W'i [OF i] using rowlow [of c] rowj c by (cases "c = j") simp_all
  next
    case ij: False
    have c2: "c < 2 * n" using c j by simp
    have e: "W' ! i ! c = W1 ! i ! c - W1 ! i ! j * row ! c"
      unfolding W'i [OF i] using ij axc [OF i c2] by simp
    show ?thesis
    proof (cases "c = j")
      case True
      then show ?thesis unfolding e using rowj ij by simp
    next
      case False
      then have cj: "c < j" using c by simp
      have "W1 ! i ! c = (if i = c then 1 else 0)"
      proof (cases "i = p")
        case True
        then have "W1 ! i = W ! j" using W1 [OF i] ij by simp
        then show ?thesis using un [OF j cj] cj jp True by simp
      next
        case False
        then have "W1 ! i = W ! i" using W1 [OF i] ij by simp
        then show ?thesis using un [OF i cj] by simp
      qed
      then show ?thesis unfolding e using rowlow [OF cj] by simp
    qed
  qed
  have d: "kernel_free n (map (drop n) W')"
    unfolding kernel_free_def
  proof (intro allI impI)
    fix y :: vec and k
    assume ly: "length y = n" and ker: "\<forall>r\<in>set (map (drop n) W'). dot r y = 0" and k: "k < n"
    have k': "dot (drop n (W' ! i)) y = 0" if "i < n" for i
    proof -
      have "drop n (W' ! i) \<in> set (map (drop n) W')" using that a by simp
      with ker show ?thesis by blast
    qed
    have r0: "dot (drop n row) y = 0" using k' [OF j] W'i [OF j] by simp
    have k1: "dot (drop n (W1 ! i)) y = 0" if i: "i < n" for i
    proof (cases "i = j")
      case True
      have "dot (map (\<lambda>a. a / W ! p ! j) (drop n (W ! p))) y = 0"
        using r0 by (simp add: row_def drop_map)
      then have "dot (drop n (W ! p)) y = 0" using piv by (simp add: dot_scale_left)
      then show ?thesis using W1 [OF i] True by simp
    next
      case False
      have ll: "length (drop n (W1 ! i)) = length (drop n row)" using l1 [OF i] lrow by simp
      have "dot (drop n (map2 (\<lambda>a b. a - W1 ! i ! j * b) (W1 ! i) row)) y = 0"
        using k' [OF i] W'i [OF i] False by simp
      then have "dot (map2 (\<lambda>a b. a - W1 ! i ! j * b) (drop n (W1 ! i)) (drop n row)) y = 0"
        by (simp add: drop_map drop_zip)
      then show ?thesis using r0 by (simp add: dot_axpy_left [OF ll])
    qed
    have k0: "dot (drop n (W ! i)) y = 0" if i: "i < n" for i
    proof -
      consider "i = j" | "i = p" "i \<noteq> j" | "i \<noteq> j" "i \<noteq> p" by blast
      then show ?thesis
      proof cases
        case 1
        show ?thesis
        proof (cases "p = j")
          case True
          then show ?thesis using k1 [OF j] W1 [OF j] 1 by simp
        next
          case False
          then show ?thesis using k1 [OF pn] W1 [OF pn] 1 by simp
        qed
      next
        case 2
        then show ?thesis using k1 [OF j] W1 [OF j] by simp
      next
        case 3
        then show ?thesis using k1 [OF i] W1 [OF i] by simp
      qed
    qed
    have "\<forall>r\<in>set (map (drop n) W). dot r y = 0"
    proof
      fix r assume "r \<in> set (map (drop n) W)"
      then obtain i where "i < n" "r = drop n (W ! i)" using lW by (auto simp: in_set_conv_nth)
      then show "dot r y = 0" using k0 by simp
    qed
    with kE ly k show "y ! k = 0" unfolding kernel_free_def by blast
  qed
  from a b c d have "elim_inv n X (Suc j) W'" by (simp add: elim_inv_def)
  with el show ?thesis by blast
qed

lemma is_mat_nth:
  assumes "length M = r" and "\<And>i. i < r \<Longrightarrow> length (M ! i) = c"
  shows "is_mat r c M"
  unfolding is_mat_iff
proof (intro conjI ballI)
  show "length M = r" by (rule assms(1))
next
  fix row assume "row \<in> set M"
  then obtain i where "i < length M" "M ! i = row" unfolding in_set_conv_nth by blast
  then show "length row = c" using assms by auto
qed

lemma length_eye: "length (eye n) = n"
  by (simp add: eye_def)

lemma eye_row: "i < n \<Longrightarrow> eye n ! i = map (\<lambda>j. if i = j then 1 else 0) [0..<n]"
  by (simp add: eye_def)

lemma vec_mat_eye_row:
  assumes X: "is_mat n c X" and i: "i < n"
  shows "vec_mat (eye n ! i) X = X ! i"
proof -
  have np: "0 < n" using i by simp
  have nc: "ncols X = c" using X np by (rule ncols_is_mat)
  have lX: "length X = n" and li: "length (X ! i) = c" using X i by (simp_all add: is_mat_iff)
  show ?thesis
  proof (rule nth_equalityI)
    show "length (vec_mat (eye n ! i) X) = length (X ! i)" by (simp add: length_vec_mat nc li)
  next
    fix k assume "k < length (vec_mat (eye n ! i) X)"
    then have k: "k < c" by (simp add: length_vec_mat nc)
    have "vec_mat (eye n ! i) X ! k = dot (eye n ! i) (column X k)"
      using k nc by (simp add: nth_vec_mat)
    also have "\<dots> = column X k ! i" using i by (rule dot_eye) (simp add: length_column lX)
    also have "\<dots> = X ! i ! k" using i lX by (simp add: nth_column)
    finally show "vec_mat (eye n ! i) X ! k = X ! i ! k" .
  qed
qed

lemma kernel_free_eye: "kernel_free n (eye n)"
  unfolding kernel_free_def
proof (intro allI impI)
  fix y :: vec and k
  assume ly: "length y = n" and z: "\<forall>r\<in>set (eye n). dot r y = 0" and k: "k < n"
  have "eye n ! k \<in> set (eye n)" using k by (simp add: length_eye)
  with z have "dot (eye n ! k) y = 0" by blast
  then show "y ! k = 0" using dot_eye [OF k ly] by simp
qed

lemma elim_init:
  assumes X: "is_mat n n X"
  shows "elim_inv n X 0 (map2 (@) X (eye n))"
proof -
  have lX: "length X = n" and lr: "\<And>i. i < n \<Longrightarrow> length (X ! i) = n"
    using X by (simp_all add: is_mat_iff)
  have row: "map2 (@) X (eye n) ! i = X ! i @ eye n ! i" if "i < n" for i
    using that lX by (simp add: length_eye)
  have g: "good n X (map2 (@) X (eye n) ! i)" if i: "i < n" for i
    unfolding row [OF i] good_def
    using lr [OF i] i vec_mat_eye_row [OF X i] by (simp add: length_eye_row)
  have "map (drop n) (map2 (@) X (eye n)) = eye n"
  proof (rule nth_equalityI)
    show "length (map (drop n) (map2 (@) X (eye n))) = length (eye n)"
      using lX by (simp add: length_eye)
  next
    fix i assume "i < length (map (drop n) (map2 (@) X (eye n)))"
    then have i: "i < n" using lX by (simp add: length_eye)
    then show "map (drop n) (map2 (@) X (eye n)) ! i = eye n ! i"
      using lr [OF i] lX by (simp add: length_eye)
  qed
  then have "kernel_free n (map (drop n) (map2 (@) X (eye n)))"
    using kernel_free_eye by simp
  with g show ?thesis using lX by (simp add: elim_inv_def length_eye)
qed

lemma elim_final:
  assumes inv: "elim_inv n X n W"
  shows "is_mat n n (map (drop n) W)"
    and "\<And>i. i < n \<Longrightarrow> vec_mat (map (drop n) W ! i) X = eye n ! i"
    and "kernel_free n (map (drop n) W)"
proof -
  have lW: "length W = n" and gd: "\<And>i. i < n \<Longrightarrow> good n X (W ! i)"
    and un: "\<And>i c. i < n \<Longrightarrow> c < n \<Longrightarrow> W ! i ! c = (if i = c then 1 else 0)"
    and kE: "kernel_free n (map (drop n) W)"
    using inv by (simp_all add: elim_inv_def)
  show "kernel_free n (map (drop n) W)" by (rule kE)
  show "is_mat n n (map (drop n) W)"
  proof (rule is_mat_nth)
    show "length (map (drop n) W) = n" using lW by simp
    fix i assume i: "i < n"
    then show "length (map (drop n) W ! i) = n" using gd [OF i] lW by (simp add: good_def)
  qed
  show "vec_mat (map (drop n) W ! i) X = eye n ! i" if i: "i < n" for i
  proof -
    have l: "length (W ! i) = 2 * n" using gd [OF i] by (simp add: good_def)
    have "take n (W ! i) = eye n ! i"
    proof (rule nth_equalityI)
      show "length (take n (W ! i)) = length (eye n ! i)" using l i by (simp add: length_eye_row)
    next
      fix c assume "c < length (take n (W ! i))"
      then have c: "c < n" using l by simp
      then show "take n (W ! i) ! c = eye n ! i ! c" using un [OF i c] i by (simp add: nth_eye)
    qed
    then show ?thesis using gd [OF i] i lW by (simp add: good_def)
  qed
qed

lemma linalg_inv_left:
  assumes X: "is_mat n n X" and kf: "kernel_free n X"
  shows "\<exists>Y. linalg_inv X = Inr Y \<and> is_mat n n Y \<and> (\<forall>i<n. vec_mat (Y ! i) X = eye n ! i)"
proof -
  have lX: "length X = n" using X by (simp add: is_mat_iff)
  have "\<exists>W. for_state eliminate [0..<n] (map2 (@) X (eye n)) = Inr W \<and> elim_inv n X n W"
  proof (rule for_state_upt [where I = "elim_inv n X"])
    show "elim_inv n X 0 (map2 (@) X (eye n))" using X by (rule elim_init)
    show "0 \<le> n" by simp
    fix j W assume j: "j < n" and inv: "elim_inv n X j W"
    from pivot_exists [OF inv j X kf] obtain p where "pivot_row j W = Some p" by blast
    with inv j show "\<exists>W'. eliminate j W = Inr W' \<and> elim_inv n X (Suc j) W'"
      by (rule eliminate_inv)
  qed
  then obtain W where run: "for_state eliminate [0..<n] (map2 (@) X (eye n)) = Inr W"
    and inv: "elim_inv n X n W" by blast
  have res: "linalg_inv X = Inr (map (drop n) W)"
    using X by (simp add: linalg_inv_def lX run)
  with elim_final(1,2) [OF inv] show ?thesis by blast
qed

lemma dot_comm: "dot u v = dot v u"
proof (induction u arbitrary: v)
  case Nil
  then show ?case by (simp add: dot_def)
next
  case (Cons a u)
  have "dot u w = dot w u" for w by (rule Cons.IH)
  then have "sum_list (map2 (*) u w) = sum_list (map2 (*) w u)" for w by (simp add: dot_def)
  then show ?case by (cases v) (simp_all add: dot_def)
qed

lemma column_eye: "k < n \<Longrightarrow> column (eye n) k = eye n ! k"
  by (rule nth_equalityI)
    (auto simp: length_column length_eye length_eye_row nth_column nth_eye)

lemma ncols_eye: "ncols (eye n) = n"
proof (cases "n = 0")
  case True
  then show ?thesis by (simp add: eye_def ncols_def)
next
  case False
  then show ?thesis using ncols_is_mat [OF is_mat_eye [of n]] by simp
qed

lemma vec_mat_eye_right:
  assumes "length r = n"
  shows "vec_mat r (eye n) = r"
proof (rule nth_equalityI)
  show "length (vec_mat r (eye n)) = length r" using assms by (simp add: length_vec_mat ncols_eye)
next
  fix k assume "k < length (vec_mat r (eye n))"
  then have k: "k < n" by (simp add: length_vec_mat ncols_eye)
  have "vec_mat r (eye n) ! k = dot r (column (eye n) k)"
    using k by (simp add: nth_vec_mat ncols_eye)
  also have "\<dots> = dot (eye n ! k) r" using k by (simp add: column_eye dot_comm)
  also have "\<dots> = r ! k" using k assms by (rule dot_eye)
  finally show "vec_mat r (eye n) ! k = r ! k" .
qed

lemma vec_mat_assoc:
  assumes X: "is_mat n m X" and Z: "is_mat m c Z" and r: "length r = n"
    and np: "0 < n" and mp: "0 < m"
  shows "vec_mat (vec_mat r X) Z = vec_mat r (map (\<lambda>x. vec_mat x Z) X)"
proof -
  have cZ: "ncols Z = c" using Z mp by (rule ncols_is_mat)
  have cX: "ncols X = m" using X np by (rule ncols_is_mat)
  have lX: "length X = n" and lZ: "length Z = m" using X Z by (simp_all add: is_mat_iff)
  have XZ: "is_mat n c (map (\<lambda>x. vec_mat x Z) X)"
    using lX by (intro is_mat_nth) (simp_all add: length_vec_mat cZ)
  have cXZ: "ncols (map (\<lambda>x. vec_mat x Z) X) = c" using XZ np by (rule ncols_is_mat)
  show ?thesis
  proof (rule nth_equalityI)
    show "length (vec_mat (vec_mat r X) Z) = length (vec_mat r (map (\<lambda>x. vec_mat x Z) X))"
      by (simp add: length_vec_mat cZ cXZ)
  next
    fix k assume "k < length (vec_mat (vec_mat r X) Z)"
    then have k: "k < c" by (simp add: length_vec_mat cZ)
    have col: "column (map (\<lambda>x. vec_mat x Z) X) k = map (\<lambda>row. dot row (column Z k)) X"
      using k cZ by (simp add: column_def nth_vec_mat)
    have "vec_mat (vec_mat r X) Z ! k = dot (vec_mat r X) (column Z k)"
      using k cZ by (simp add: nth_vec_mat)
    also have "\<dots> = dot r (map (\<lambda>row. dot row (column Z k)) X)"
      using X r _ np by (rule dot_vec_mat) (simp add: length_column lZ)
    also have "\<dots> = vec_mat r (map (\<lambda>x. vec_mat x Z) X) ! k"
      using k cXZ by (simp add: nth_vec_mat col)
    finally show "vec_mat (vec_mat r X) Z ! k = vec_mat r (map (\<lambda>x. vec_mat x Z) X) ! k" .
  qed
qed

lemma matmul_rows:
  assumes "matmul Z X = Inr P" and "i < length Z"
  shows "vec_mat (Z ! i) X = P ! i"
  using assms by (auto simp: matmul_def split: if_splits)

lemma dot_zeros_right: "dot r (replicate k 0) = 0"
  by (simp add: dot_comm [of r] dot_zeros)

lemma kernel_free_left_inverse:
  assumes X: "is_mat n n X" and Z: "is_mat n n Z" and l: "matmul Z X = Inr (eye n)"
  shows "kernel_free n X"
  unfolding kernel_free_def
proof (intro allI impI)
  fix y :: vec and k
  assume ly: "length y = n" and z: "\<forall>r\<in>set X. dot r y = 0" and k: "k < n"
  have np: "0 < n" using k by simp
  have lZ: "length Z = n" and lk: "length (Z ! k) = n" using Z k by (simp_all add: is_mat_iff)
  have lX: "length X = n" using X by (simp add: is_mat_iff)
  have "map (\<lambda>row. dot row y) X = replicate n 0"
    using z lX by (intro nth_equalityI) simp_all
  then have "dot (Z ! k) (map (\<lambda>row. dot row y) X) = 0" by (simp add: dot_zeros_right)
  then have "dot (vec_mat (Z ! k) X) y = 0" using dot_vec_mat [OF X lk ly np] by simp
  then have "dot (eye n ! k) y = 0" using matmul_rows [OF l] k lZ by simp
  then show "y ! k = 0" using dot_eye [OF k ly] by simp
qed

lemma linalg_inv_inverse:
  assumes X: "is_mat n n X" and Z: "is_mat n n Z"
    and l: "matmul Z X = Inr (eye n)" and r: "matmul X Z = Inr (eye n)"
  shows "linalg_inv X = Inr Z"
proof (cases "n = 0")
  case True
  then have "X = []" "Z = []" using X Z by (simp_all add: is_mat_def)
  then show ?thesis by (simp add: linalg_inv_def is_mat_def eye_def)
next
  case False
  then have np: "0 < n" by simp
  have lX: "length X = n" and lZ: "length Z = n" using X Z by (simp_all add: is_mat_iff)
  have kf: "kernel_free n X" using X Z l by (rule kernel_free_left_inverse)
  from linalg_inv_left [OF X kf] obtain Y where res: "linalg_inv X = Inr Y"
    and Y: "is_mat n n Y" and YX: "\<And>i. i < n \<Longrightarrow> vec_mat (Y ! i) X = eye n ! i" by blast
  have lY: "length Y = n" using Y by (simp add: is_mat_iff)
  have XZ: "map (\<lambda>x. vec_mat x Z) X = eye n"
    using r by (auto simp: matmul_def split: if_splits)
  have "Y = Z"
  proof (rule nth_equalityI)
    show "length Y = length Z" using lY lZ by simp
  next
    fix i assume "i < length Y"
    then have i: "i < n" using lY by simp
    have li: "length (Y ! i) = n" using Y i by (simp add: is_mat_iff)
    have "Y ! i = vec_mat (Y ! i) (map (\<lambda>x. vec_mat x Z) X)"
      unfolding XZ using li by (rule vec_mat_eye_right [symmetric])
    also have "\<dots> = vec_mat (vec_mat (Y ! i) X) Z"
      using X Z li np np by (rule vec_mat_assoc [symmetric])
    also have "\<dots> = vec_mat (eye n ! i) Z" using YX [OF i] by simp
    also have "\<dots> = Z ! i" using Z i by (rule vec_mat_eye_row)
    finally show "Y ! i = Z ! i" .
  qed
  with res show ?thesis by simp
qed

lemma for_state_upt_partial:
  assumes "for_state body [a..<b] s = Inr s'" and "I a s" and "a \<le> b"
    and "\<And>i s s'. a \<le> i \<Longrightarrow> i < b \<Longrightarrow> I i s \<Longrightarrow> body i s = Inr s' \<Longrightarrow> I (Suc i) s'"
  shows "I b s'"
  using assms
proof (induction "b - a" arbitrary: a s)
  case 0
  then show ?case by simp
next
  case (Suc k)
  then have ab: "a < b" by simp
  from Suc.prems(1) ab obtain s1 where s1: "body a s = Inr s1"
    and rest: "for_state body [Suc a..<b] s1 = Inr s'"
    by (auto simp: upt_rec [of a b] split: sum.splits)
  have "I (Suc a) s1" using Suc.prems(4) [of a s s1] ab Suc.prems(2) s1 by simp
  with rest show ?case
  proof (rule Suc.hyps(1) [rotated])
    show "k = b - Suc a" using Suc.hyps(2) by simp
    show "Suc a \<le> b" using ab by simp
    show "I (Suc i) s'" if "Suc a \<le> i" "i < b" "I i s" "body i s = Inr s'" for i s s'
      using Suc.prems(4) [of i s s'] that by simp
  qed
qed

lemma for_state_error:
  "for_state body xs s = Inl e \<Longrightarrow> \<exists>i s0. body i s0 = Inl e"
proof (induction xs arbitrary: s)
  case Nil
  then show ?case by simp
next
  case (Cons x xs)
  then show ?case by (cases "body x s") auto
qed

lemma eliminate_error: "eliminate j W = Inl e \<Longrightarrow> e = LinAlgError"
  by (auto simp: eliminate_def Let_def split: option.splits)

lemma linalg_inv_error: "linalg_inv X = Inl e \<Longrightarrow> e = LinAlgError"
proof -
  assume a: "linalg_inv X = Inl e"
  show ?thesis
  proof (cases "is_mat (length X) (length X) X")
    case False
    with a show ?thesis by (simp add: linalg_inv_def)
  next
    case True
    with a have "for_state eliminate [0..<length X] (map2 (@) X (eye (length X))) = Inl e"
      by (cases "for_state eliminate [0..<length X] (map2 (@) X (eye (length X)))")
        (simp_all add: linalg_inv_def)
    from for_state_error [OF this] obtain i s0 where "eliminate i s0 = Inl e" by blast
    then show ?thesis by (rule eliminate_error)
  qed
qed

lemma matmul_eye_rows:
  assumes Y: "is_mat n n Y" and X: "is_mat n n X"
    and rows: "\<And>i. i < n \<Longrightarrow> vec_mat (Y ! i) X = eye n ! i"
  shows "matmul Y X = Inr (eye n)"
proof -
  have lY: "length Y = n" and lX: "length X = n" using Y X by (simp_all add: is_mat_iff)
  have nc: "ncols Y = length X"
  proof (cases "n = 0")
    case True
    then show ?thesis using lY lX by (simp add: ncols_def)
  next
    case False
    then show ?thesis using ncols_is_mat [OF Y] lX by simp
  qed
  have "map (\<lambda>r. vec_mat r X) Y = eye n"
    using lY rows by (intro nth_equalityI) (simp_all add: length_eye)
  with nc show ?thesis by (simp add: matmul_def)
qed

lemma left_inverse_unique:
  assumes X: "is_mat n n X" and Y: "is_mat n n Y" and Z: "is_mat n n Z"
    and YX: "\<And>i. i < n \<Longrightarrow> vec_mat (Y ! i) X = eye n ! i"
    and XZ: "\<And>i. i < n \<Longrightarrow> vec_mat (X ! i) Z = eye n ! i"
  shows "Y = Z"
proof (rule nth_equalityI)
  show "length Y = length Z" using Y Z by (simp add: is_mat_iff)
next
  fix i assume "i < length Y"
  then have i: "i < n" using Y by (simp add: is_mat_iff)
  then have np: "0 < n" by simp
  have li: "length (Y ! i) = n" using Y i by (simp add: is_mat_iff)
  have lX: "length X = n" using X by (simp add: is_mat_iff)
  have e: "map (\<lambda>x. vec_mat x Z) X = eye n"
    using lX XZ by (intro nth_equalityI) (simp_all add: length_eye)
  have "Y ! i = vec_mat (Y ! i) (map (\<lambda>x. vec_mat x Z) X)"
    unfolding e using li by (rule vec_mat_eye_right [symmetric])
  also have "\<dots> = vec_mat (vec_mat (Y ! i) X) Z"
    using X Z li np np by (rule vec_mat_assoc [symmetric])
  also have "\<dots> = vec_mat (eye n ! i) Z" using YX [OF i] by simp
  also have "\<dots> = Z ! i" using Z i by (rule vec_mat_eye_row)
  finally show "Y ! i = Z ! i" .
qed

lemma linalg_inv_sound:
  assumes "linalg_inv X = Inr Y"
  shows "is_mat (length X) (length X) X \<and> is_mat (length X) (length X) Y \<and>
     matmul Y X = Inr (eye (length X)) \<and> matmul X Y = Inr (eye (length X))"
proof -
  let ?n = "length X"
  have X: "is_mat ?n ?n X" using assms by (auto simp: linalg_inv_def split: if_splits)
  with assms obtain W where run: "for_state eliminate [0..<?n] (map2 (@) X (eye ?n)) = Inr W"
    and Y: "Y = map (drop ?n) W"
    by (auto simp: linalg_inv_def ebind_eq_Inr)
  have inv: "elim_inv ?n X ?n W"
  proof (rule for_state_upt_partial [OF run, where I = "elim_inv ?n X"])
    show "elim_inv ?n X 0 (map2 (@) X (eye ?n))" using X by (rule elim_init)
    show "0 \<le> ?n" by simp
    fix j W0 W1 assume j: "j < ?n" and i0: "elim_inv ?n X j W0" and st: "eliminate j W0 = Inr W1"
    from st obtain p where "pivot_row j W0 = Some p"
      by (auto simp: eliminate_def split: option.splits)
    from eliminate_inv [OF i0 j this] st show "elim_inv ?n X (Suc j) W1" by simp
  qed
  note fin = elim_final [OF inv, folded Y]
  have YX: "matmul Y X = Inr (eye ?n)" using fin(1) X fin(2) by (rule matmul_eye_rows)
  from linalg_inv_left [OF fin(1) fin(3)] obtain X' where X': "is_mat ?n ?n X'"
    and X'Y: "\<And>i. i < ?n \<Longrightarrow> vec_mat (X' ! i) Y = eye ?n ! i" by blast
  have "X' = X" using fin(1) X' X X'Y fin(2) by (rule left_inverse_unique)
  with X'Y have "\<And>i. i < ?n \<Longrightarrow> vec_mat (X ! i) Y = eye ?n ! i" by simp
  with X fin(1) have "matmul X Y = Inr (eye ?n)" by (rule matmul_eye_rows)
  with X fin(1) YX show ?thesis by simp
qed

section \<open>The integrator of \<open>set_dynamical_system\<close>\<close>


lemma set_block_is_mat:
  assumes "set_block (r0, r1) (c0, c1) X V = Inr X'" and "is_mat r c X"
    and "r0 \<le> r1" and "r1 \<le> r" and "c0 \<le> c1" and "c1 \<le> c"
  shows "is_mat r c X'"
proof -
  have lX: "length X = r" and rows: "\<And>k. k < r \<Longrightarrow> length (X ! k) = c"
    using assms(2) by (auto simp: is_mat_iff)
  have V: "is_mat (r1 - r0) (c1 - c0) V"
    using assms(1) by (auto simp: set_block_def split: if_splits)
  have l: "length X' = r" using set_block_rows(1) [OF assms(1)] assms(3,4) lX by simp
  have "length (X' ! k) = c" if k: "k < r" for k
  proof (cases "r0 \<le> k \<and> k < r1")
    case True
    then have "k - r0 < length V" using V by (auto simp: is_mat_iff)
    then have "length (V ! (k - r0)) = c1 - c0" using V by (auto simp: is_mat_iff)
    moreover have "X' ! k = take c0 (X ! k) @ V ! (k - r0) @ drop c1 (X ! k)"
      using set_block_rows(2) [OF assms(1)] assms(3,4) lX k True by simp
    ultimately show ?thesis using rows [OF k] assms(5,6) by simp
  next
    case False
    have "X' ! k = (if r0 \<le> k \<and> k < r1
        then take c0 (X ! k) @ V ! (k - r0) @ drop c1 (X ! k) else X ! k)"
      using set_block_rows(2) [OF assms(1)] assms(3,4) lX k by simp
    then have "X' ! k = X ! k" by (simp only: False if_False)
    then show ?thesis using rows [OF k] by simp
  qed
  with l show ?thesis by (auto simp: is_mat_iff in_set_conv_nth)
qed

lemma is_mat_mscale: "is_mat r c M \<Longrightarrow> is_mat r c (mscale M x)"
  by (auto simp: is_mat_iff mscale_def)

lemma is_mat_zeros: "is_mat r c (replicate r (replicate c 0))"
  by (simp add: is_mat_iff)

lemma set_block_shape:
  assumes "is_mat r c X" and "is_mat (r1 - r0) (c1 - c0) V"
    and "r0 \<le> r1" and "r1 \<le> r" and "c0 \<le> c1" and "c1 \<le> c"
  shows "\<exists>X'. set_block (r0, r1) (c0, c1) X V = Inr X' \<and> is_mat r c X'"
proof -
  from set_block_ok [OF assms(2)] obtain X' where "set_block (r0, r1) (c0, c1) X V = Inr X'"
    by blast
  then show ?thesis using set_block_is_mat assms by blast
qed

lemma dynamics_ok:
  assumes p: "param ''nb_var'' = Some (IntV (int nv))" "param ''nbDeriv'' = Some (IntV (int d))"
      "param ''nbVarPos'' = Some (IntV (int n))"
    and dt: "param_real param ''dt'' = Inr dt"
    and d: "d = 1 \<or> d = 2" and nv: "nv = n * d" and n: "1 \<le> n"
  shows "\<exists>A B. dynamics param = Inr (A, B) \<and> is_mat nv nv A \<and> is_mat nv n B"
proof -
  have pi: "param_int param ''nb_var'' = Inr (int nv)" "param_int param ''nbDeriv'' = Inr (int d)"
    "param_int param ''nbVarPos'' = Inr (int n)"
    using p by (simp_all add: param_int_def param_get_def)
  have id: "np_identity (int k) = Inr (eye k)" for k by (simp add: np_identity_def)
  have z: "np_zeros (int nv) (int n) = Inr (replicate nv (replicate n 0))"
    by (simp add: np_zeros_def)
  have V: "is_mat n n (mscale (eye n) x)" for x by (intro is_mat_mscale is_mat_eye)
  from d show ?thesis
  proof
    assume d1: "d = 1"
    then have nn: "nv = n" using nv by simp
    have s: "py_slice (int 0 * int n) ((int 0 + 1) * int n) (length (replicate nv (replicate n (0::real)))) = (0, n)"
      using py_slice_nat [of 0 n n] nn by (simp add: min_def max_def)
    have "is_mat (n - 0) (n - 0) (mscale (eye n) dt)" using V by simp
    from set_block_shape [OF is_mat_zeros this, of n n]
    obtain B where B: "set_block (0, n) (0, n) (replicate n (replicate n 0)) (mscale (eye n) dt) = Inr B"
      and Bm: "is_mat n n B" by auto
    have "dynamics param = Inr (eye nv, B)"
      unfolding dynamics_def
      apply (simp only: pi ebind_Inr id dt z Let_def)
      apply (simp add: d1 py_take_def py_slice_def py_get_def)
      using B nn apply simp
      done
    then show ?thesis using Bm nn is_mat_eye by auto
  next
    assume d2: "d = 2"
    then have nn: "nv = 2 * n" using nv by simp
    have lz: "length (replicate nv (replicate n (0::real))) = 2 * n" using nn by simp
    have le: "length (eye k) = k" for k by (simp add: eye_def)
    have n2: "nat (2 * int n) = 2 * n" by linarith
    have sA1: "py_slice 0 (int n) (2 * n) = (0, n)"
      using py_slice_nat [of 0 n "2 * n"] by (simp add: min_def max_def)
    have sA2: "py_slice (- int n) (2 * int n) (2 * n) = (n, 2 * n)"
      using n by (simp add: py_slice_def Let_def min_def max_def n2)
    have s1: "py_slice (int n) (2 * int n) (2 * n) = (n, 2 * n)"
      using py_slice_nat [of n "2 * n" "2 * n"] by (simp add: min_def max_def)
    have dv: "py_take 2 [dt, dt ^ 2 / 2] = [dt, dt ^ 2 / 2]"
      by (simp add: py_take_def py_slice_def)
    have g: "py_get [dt ^ 2 / 2, dt] 0 = Inr (dt ^ 2 / 2)" "py_get [dt ^ 2 / 2, dt] 1 = Inr dt"
      by (simp_all add: py_get_def)
    have "is_mat (n - 0) (2 * n - n) (mscale (eye n) dt)" using V by simp
    from set_block_shape [OF is_mat_eye this, of "2 * n"]
    obtain A where A: "set_block (0, n) (n, 2 * n) (eye (2 * n)) (mscale (eye n) dt) = Inr A"
      and Am: "is_mat (2 * n) (2 * n) A" by auto
    have "is_mat (n - 0) (n - 0) (mscale (eye n) (dt ^ 2 / 2))" using V by simp
    from set_block_shape [OF is_mat_zeros this, of "2 * n"]
    obtain B1 where B1: "set_block (0, n) (0, n) (replicate (2 * n) (replicate n 0))
        (mscale (eye n) (dt ^ 2 / 2)) = Inr B1"
      and B1m: "is_mat (2 * n) n B1" by auto
    have "is_mat (2 * n - n) (n - 0) (mscale (eye n) dt)" using V by simp
    from set_block_shape [OF B1m this]
    obtain B2 where B2: "set_block (n, 2 * n) (0, n) B1 (mscale (eye n) dt) = Inr B2"
      and B2m: "is_mat (2 * n) n B2" by auto
    have lB1: "length B1 = 2 * n" using B1m by (simp add: is_mat_iff)
    have u: "[0..<2] = [0, 1]" by (simp add: upt_rec numeral_2_eq_2)
    have "dynamics param = Inr (A, B2)"
      unfolding dynamics_def
      apply (simp only: pi ebind_Inr id dt z Let_def)
      apply (simp add: d2 nn le sA1 sA2 A u dv g B1 lB1 s1 B2)
      done
    then show ?thesis using Am B2m nn by auto
  qed
qed

section \<open>The trajectory of the lifted system\<close>


lemma row_col_power:
  assumes A: "is_mat nv nv A" and nv: "0 < nv" and "length r = nv" and "length x = nv"
  shows "dot (row_power A t r) x = dot r (((\<lambda>v. map (\<lambda>row. dot row v) A) ^^ t) x)"
  using assms(3,4)
proof (induction t arbitrary: x)
  case 0
  then show ?case by (simp add: row_power_def)
next
  case (Suc t)
  let ?mv = "\<lambda>v. map (\<lambda>row. dot row v) A"
  have lA: "length A = nv" using A by (simp add: is_mat_iff)
  have "dot (row_power A (Suc t) r) x = dot (vec_mat (row_power A t r) A) x"
    by (simp add: row_power_Suc)
  also have "\<dots> = dot (row_power A t r) (?mv x)"
    using dot_vec_mat [OF A _ Suc.prems(2) nv] length_row_power [OF A nv Suc.prems(1)] by simp
  also have "\<dots> = dot r ((?mv ^^ t) (?mv x))"
    using Suc.prems lA by (intro Suc.IH) simp_all
  also have "\<dots> = dot r ((?mv ^^ Suc t) x)" by (simp only: funpow_Suc_right o_apply)
  finally show ?case .
qed

lemma length_col_power:
  assumes "length A = nv" and "length x = nv"
  shows "length (((\<lambda>v. map (\<lambda>row. dot row v) A) ^^ t) x) = nv"
  using assms by (cases t) simp_all

lemma concat_chunks:
  assumes "length v = m * k" and "0 < k"
  shows "concat (map (\<lambda>i. take k (drop (i * k) v)) [0..<m]) = v"
proof (rule nth_equalityI)
  have len: "length (take k (drop (i * k) v)) = k" if "i < m" for i
  proof -
    have "Suc i * k \<le> m * k" using that by (intro mult_le_mono1) simp
    then show ?thesis using assms(1) by simp
  qed
  then have l: "length (concat (map (\<lambda>i. take k (drop (i * k) v)) [0..<m])) = m * k"
    using length_concat_const [of "[0..<m]" "\<lambda>i. take k (drop (i * k) v)" k] by simp
  then show "length (concat (map (\<lambda>i. take k (drop (i * k) v)) [0..<m])) = length v"
    using assms(1) by simp
  fix r assume "r < length (concat (map (\<lambda>i. take k (drop (i * k) v)) [0..<m]))"
  then have r: "r < m * k" using l by simp
  then have d: "r div k < m" using assms(2) by (simp add: less_mult_imp_div_less)
  have "concat (map (\<lambda>i. take k (drop (i * k) v)) [0..<m]) ! (r div k * k + r mod k) =
      take k (drop ([0..<m] ! (r div k) * k) v) ! (r mod k)"
    using len d assms(2) by (intro nth_concat_const) simp_all
  also have "\<dots> = v ! (r div k * k + r mod k)"
    using d assms by simp
  finally show "concat (map (\<lambda>i. take k (drop (i * k) v)) [0..<m]) ! r = v ! r" by simp
qed


lemma nth_take_drop:
  assumes "a + j < length v" and "j < k"
  shows "take k (drop a v) ! j = v ! (a + j)"
proof -
  have "a \<le> length v" using assms(1) by linarith
  then show ?thesis using assms(2) by simp
qed

lemma lifted_trajectory:
  fixes A B :: mat
  assumes A: "is_mat nv nv A" and B: "is_mat nv n B" and nv: "0 < nv" and T: "1 \<le> T"
    and lSx: "length Sx = T * nv" and lSu: "length Su = T * nv"
    and Sx: "\<forall>r<T * nv. Sx ! r = row_power A (r div nv) (eye nv ! (r mod nv))"
    and Su: "\<forall>r<T * nv. Su ! r =
         input_block A B (r div nv) ! (r mod nv) @ replicate (n * (T - 1) - r div nv * n) 0"
    and x0: "length x0 = nv" and u: "length u = n * (T - 1)"
    and x: "x = map2 (+) (map (\<lambda>r. dot r x0) Sx) (map (\<lambda>r. dot r u) Su)"
  shows "take nv (drop (0 * nv) x) = x0"
    and "t < T - 1 \<Longrightarrow>
         take nv (drop (Suc t * nv) x) =
           map2 (+) (map (\<lambda>row. dot row (take nv (drop (t * nv) x))) A)
                    (map (\<lambda>row. dot row (take n (drop (t * n) u))) B)"
proof -
  let ?mv = "\<lambda>M v. map (\<lambda>row. dot row v) M"
  let ?f = "\<lambda>t. ((\<lambda>v. ?mv A v) ^^ t) x0"
  let ?c = "\<lambda>t. ?mv (input_block A B t) (take (t * n) u)"
  let ?xs = "\<lambda>t. take nv (drop (t * nv) x)"
  let ?us = "\<lambda>t. take n (drop (t * n) u)"
  have lA: "length A = nv" and lB: "length B = nv" using A B by (auto simp: is_mat_iff)
  have rA: "length (A ! j) = nv" if "j < nv" for j using A that by (auto simp: is_mat_iff)
  have rB: "length (B ! j) = n" if "j < nv" for j using B that by (auto simp: is_mat_iff)
  have Mm: "is_mat nv (t * n) (input_block A B t)" for t using A B nv by (rule is_mat_input_block)
  have lM: "length (input_block A B t) = nv" for t using Mm [of t] by (simp add: is_mat_iff)
  have rM: "length (input_block A B t ! j) = t * n" if "j < nv" for t j
    using Mm [of t] that by (auto simp: is_mat_iff)
  have lf: "length (?f t) = nv" for t using lA x0 by (rule length_col_power)
  have lc: "length (?c t) = nv" for t using lM by simp
  have lx: "length x = T * nv" unfolding x using lSx lSu by simp
  have xr: "x ! r = dot (Sx ! r) x0 + dot (Su ! r) u" if "r < T * nv" for r
    unfolding x using that lSx lSu by simp
  \<comment> \<open>every block of \<open>x\<close> is the free motion plus the forced motion\<close>
  have blk: "?xs t = map2 (+) (?f t) (?c t)" if t: "t < T" for t
  proof (rule nth_equalityI)
    have "Suc t * nv \<le> T * nv" using t by (intro mult_le_mono1) simp
    then have le: "t * nv + nv \<le> T * nv" by (simp add: add.commute)
    then show l: "length (?xs t) = length (map2 (+) (?f t) (?c t))"
      using lx lf lc by simp
    fix j assume "j < length (?xs t)"
    then have j: "j < nv" using lx le by simp
    then have r: "t * nv + j < T * nv" using le by simp
    have dv: "(t * nv + j) div nv = t" "(t * nv + j) mod nv = j" using j nv by simp_all
    have "?xs t ! j = x ! (t * nv + j)" using j r lx by (intro nth_take_drop) simp_all
    also have "\<dots> = dot (Sx ! (t * nv + j)) x0 + dot (Su ! (t * nv + j)) u" by (rule xr [OF r])
    also have "Sx ! (t * nv + j) = row_power A t (eye nv ! j)" using Sx r dv by simp
    also have "Su ! (t * nv + j) =
        input_block A B t ! j @ replicate (n * (T - 1) - t * n) 0"
      using Su r dv by simp
    also have "dot (row_power A t (eye nv ! j)) x0 = ?f t ! j"
      using row_col_power [OF A nv length_eye_row [OF j] x0, of t] dot_eye [OF j lf [of t]]
      by simp
    also have "dot (input_block A B t ! j @ replicate (n * (T - 1) - t * n) 0) u = ?c t ! j"
      using dot_pad [of "input_block A B t ! j" _ u] rM [OF j, of t] lM j by simp
    finally show "?xs t ! j = map2 (+) (?f t) (?c t) ! j" using j lf lc by simp
  qed
  \<comment> \<open>the start\<close>
  have "0 < T" using T by simp
  from blk [OF this] have "?xs 0 = map2 (+) x0 (?mv (input_block A B 0) [])" by simp
  also have "\<dots> = x0"
  proof (rule nth_equalityI)
    show "length (map2 (+) x0 (?mv (input_block A B 0) [])) = length x0" using x0 lA by simp
    fix j assume "j < length (map2 (+) x0 (?mv (input_block A B 0) []))"
    then have "j < nv" using x0 lA by simp
    then show "map2 (+) x0 (?mv (input_block A B 0) []) ! j = x0 ! j"
      using x0 lA by (simp add: dot_Nil)
  qed
  finally show "take nv (drop (0 * nv) x) = x0" .
  \<comment> \<open>one step\<close>
  show "?xs (Suc t) = map2 (+) (?mv A (?xs t)) (?mv B (?us t))" if t: "t < T - 1"
  proof -
    have tT: "t < T" "Suc t < T" using t by simp_all
    have "Suc t * n \<le> (T - 1) * n" using t by (intro mult_le_mono1) simp
    then have un: "t * n + n \<le> length u" using u by (simp add: mult.commute add.commute)
    have lus: "length (?us t) = n" using un by simp
    have "Suc t * n = t * n + n" by simp
    then have tk: "take (Suc t * n) u = take (t * n) u @ ?us t"
      by (simp only: take_add)
    have cs: "?c (Suc t) ! j = dot (A ! j) (?c t) + dot (B ! j) (?us t)" if j: "j < nv" for j
    proof -
      have "input_block A B (Suc t) ! j = vec_mat (A ! j) (input_block A B t) @ B ! j"
        using j lA lB by simp
      then have "?c (Suc t) ! j =
          dot (vec_mat (A ! j) (input_block A B t) @ B ! j) (take (t * n) u @ ?us t)"
        using j lM [of "Suc t"] tk by simp
      also have "\<dots> = dot (vec_mat (A ! j) (input_block A B t)) (take (t * n) u) +
          dot (B ! j) (?us t)"
      proof (rule dot_append)
        have "ncols (input_block A B t) = t * n" using Mm nv by (rule ncols_is_mat)
        then show "length (vec_mat (A ! j) (input_block A B t)) = length (take (t * n) u)"
          using un by (simp add: length_vec_mat)
      qed
      also have "dot (vec_mat (A ! j) (input_block A B t)) (take (t * n) u) = dot (A ! j) (?c t)"
      proof (rule dot_vec_mat [OF Mm rA [OF j] _ nv])
        show "length (take (t * n) u) = t * n" using un by simp
      qed
      finally show ?thesis .
    qed
    show ?thesis
    proof (rule nth_equalityI)
      show "length (?xs (Suc t)) = length (map2 (+) (?mv A (?xs t)) (?mv B (?us t)))"
        unfolding blk [OF tT(2)] using lf lc lA lB by simp
      fix j assume "j < length (?xs (Suc t))"
      then have j: "j < nv" unfolding blk [OF tT(2)] using lf lc lA lB by simp
      have "?xs (Suc t) ! j = ?f (Suc t) ! j + ?c (Suc t) ! j"
        unfolding blk [OF tT(2)] using j lf [of "Suc t"] lc [of "Suc t"] by simp
      also have "?f (Suc t) ! j = dot (A ! j) (?f t)" using j lA by simp
      also have "?c (Suc t) ! j = dot (A ! j) (?c t) + dot (B ! j) (?us t)" by (rule cs [OF j])
      also have "dot (A ! j) (?f t) + (dot (A ! j) (?c t) + dot (B ! j) (?us t)) =
          dot (A ! j) (map2 (+) (?f t) (?c t)) + dot (B ! j) (?us t)"
        using dot_add_right [of "?f t" "?c t" "A ! j"] lf lc by simp
      also have "\<dots> = map2 (+) (?mv A (?xs t)) (?mv B (?us t)) ! j"
        unfolding blk [OF tT(1)] using j lA lB by simp
      finally show "?xs (Suc t) ! j = map2 (+) (?mv A (?xs t)) (?mv B (?us t)) ! j" .
    qed
  qed
qed


section \<open>The batch solve follows the dynamics\<close>

lemma is_mat_transpose: "is_mat r c M \<Longrightarrow> 0 < r \<Longrightarrow> is_mat c r (transpose_m M)"
  by (simp add: ncols_is_mat transpose_m_def is_mat_iff length_column)

lemma matmul_ok:
  assumes "is_mat r k X" "is_mat k c Y" "0 < r" "0 < k"
  shows "\<exists>Z. matmul X Y = Inr Z \<and> is_mat r c Z"
proof -
  have "ncols X = k" using assms(1,3) by (rule ncols_is_mat)
  moreover have "ncols Y = c" using assms(2,4) by (rule ncols_is_mat)
  ultimately show ?thesis using assms(1,2)
    by (simp add: matmul_def is_mat_iff length_vec_mat)
qed

lemma broadcast_m_same:
  assumes X: "is_mat r c X" and Y: "is_mat r c Y" and r: "0 < r"
  shows "broadcast_m f X Y = Inr (map2 (map2 f) X Y)"
proof -
  have nc: "ncols X = c" "ncols Y = c" using X Y r by (simp_all add: ncols_is_mat)
  have l: "length X = r" "length Y = r" using X Y by (simp_all add: is_mat_iff)
  have "map (stretch c) X = X" using X by (intro map_idI) (simp add: is_mat_iff stretch_def)
  moreover have "map (stretch c) Y = Y"
    using Y by (intro map_idI) (simp add: is_mat_iff stretch_def)
  ultimately show ?thesis by (simp add: broadcast_m_def nc l bdim_def stretch_def)
qed

lemma is_mat_map2:
  assumes X: "is_mat r c X" and Y: "is_mat r c Y"
  shows "is_mat r c (map2 (map2 f) X Y)"
proof (rule is_mat_nth)
  show "length (map2 (map2 f) X Y) = r" using X Y by (simp add: is_mat_iff)
  fix i assume "i < r"
  then show "length (map2 (map2 f) X Y ! i) = c" using X Y by (simp add: is_mat_iff)
qed

lemma column_col: "column (map (\<lambda>a. [a]) v) 0 = v"
  by (simp add: column_def comp_def)

lemma ncols_col: "v \<noteq> [] \<Longrightarrow> ncols (map (\<lambda>a. [a]) v) = 1"
  by (cases v) (simp_all add: ncols_def)

lemma is_mat_col: "is_mat (length v) 1 (map (\<lambda>a. [a]) v)"
  by (simp add: is_mat_iff)

lemma matmul_col:
  assumes X: "is_mat r c X" and v: "length v = c" and r: "0 < r" and c: "0 < c"
  shows "matmul X (map (\<lambda>a. [a]) v) = Inr (map (\<lambda>a. [a]) (map (\<lambda>row. dot row v) X))"
proof -
  have ne: "v \<noteq> []" using v c by auto
  have nc: "ncols X = length (map (\<lambda>a. [a]) v)" using ncols_is_mat [OF X r] v by simp
  have "vec_mat row (map (\<lambda>a. [a]) v) = [dot row v]" for row
    by (simp add: vec_mat_def ncols_col [OF ne] column_col)
  then show ?thesis using nc by (simp add: matmul_def comp_def)
qed

lemma concat_col: "concat (map (\<lambda>a. [a]) v) = v"
  by (induction v) simp_all

lemma col_concat:
  assumes "is_mat L 1 D"
  shows "map (\<lambda>a. [a]) (concat D) = D"
proof -
  have "\<forall>r\<in>set D. length r = 1 \<Longrightarrow> map (\<lambda>a. [a]) (concat D) = D"
  proof (induction D)
    case Nil
    then show ?case by simp
  next
    case (Cons r D)
    then have "length r = 1" by simp
    then obtain a where "r = [a]" by (cases r) auto
    with Cons show ?case by simp
  qed
  then show ?thesis using assms by (simp add: is_mat_iff)
qed

lemma broadcast_col:
  assumes "length u = length v" and "u \<noteq> []"
  shows "broadcast_m f (map (\<lambda>a. [a]) u) (map (\<lambda>a. [a]) v) = Inr (map (\<lambda>a. [a]) (map2 f u v))"
proof -
  have "0 < length u" using assms(2) by simp
  with broadcast_m_same [OF is_mat_col [of u], of "map (\<lambda>a. [a]) v" f] assms(1) is_mat_col [of v]
  have "broadcast_m f (map (\<lambda>a. [a]) u) (map (\<lambda>a. [a]) v) =
      Inr (map2 (map2 f) (map (\<lambda>a. [a]) u) (map (\<lambda>a. [a]) v))" by simp
  also have "map2 (map2 f) (map (\<lambda>a. [a]) u) (map (\<lambda>a. [a]) v) = map (\<lambda>a. [a]) (map2 f u v)"
    using assms(1) by (induction u v rule: list_induct2) simp_all
  finally show ?thesis .
qed

lemma normal_matrix_ok:
  assumes Su: "is_mat L m Su" and PSI: "is_mat m k PSI" and Q: "is_mat L L Q"
    and R: "is_mat m m R" and pos: "0 < L" "0 < m" "0 < k"
  shows "\<exists>N. normal_matrix PSI Su Q R = Inr N \<and> is_mat k k N"
proof -
  have Pt: "is_mat k m (transpose_m PSI)" using PSI pos(2) by (rule is_mat_transpose)
  have St: "is_mat m L (transpose_m Su)" using Su pos(1) by (rule is_mat_transpose)
  from matmul_ok [OF Pt St pos(3) pos(2)] obtain a1
    where a1: "matmul (transpose_m PSI) (transpose_m Su) = Inr a1" "is_mat k L a1" by blast
  from matmul_ok [OF a1(2) Q pos(3) pos(1)] obtain a2
    where a2: "matmul a1 Q = Inr a2" "is_mat k L a2" by blast
  from matmul_ok [OF a2(2) Su pos(3) pos(1)] obtain a3
    where a3: "matmul a2 Su = Inr a3" "is_mat k m a3" by blast
  from matmul_ok [OF a3(2) PSI pos(3) pos(2)] obtain a4
    where a4: "matmul a3 PSI = Inr a4" "is_mat k k a4" by blast
  from matmul_ok [OF Pt R pos(3) pos(2)] obtain b1
    where b1: "matmul (transpose_m PSI) R = Inr b1" "is_mat k m b1" by blast
  from matmul_ok [OF b1(2) PSI pos(3) pos(2)] obtain b2
    where b2: "matmul b1 PSI = Inr b2" "is_mat k k b2" by blast
  have "normal_matrix PSI Su Q R = Inr (map2 (map2 (+)) a4 b2)"
    unfolding normal_matrix_def
    by (simp only: a1(1) a2(1) a3(1) a4(1) b1(1) b2(1) ebind_Inr
        broadcast_m_same [OF a4(2) b2(2) pos(3)])
  moreover have "is_mat k k (map2 (map2 (+)) a4 b2)" using a4(2) b2(2) by (rule is_mat_map2)
  ultimately show ?thesis by blast
qed

lemma reshape_rows_ok:
  assumes "length v = r * k" and "0 < k"
  shows "reshape_rows (int k) v = Inr (map (\<lambda>i. take k (drop (i * k) v)) [0..<r])"
  using assms by (simp add: reshape_rows_def)

lemma get_u_x_run:
  assumes pi: "param_int param ''nb_var'' = Inr (int nv)"
      "param_int param ''nbVarPos'' = Inr (int n)"
    and Su: "is_mat L m Su" and Sx: "is_mat L nv Sx"
    and PSI: "is_mat m k PSI" and Q: "is_mat L L Q"
    and muQ: "is_mat L 1 muQ" and sp: "length start_pose = nv"
    and L: "L = T * nv" and m: "m = (T - 1) * n"
    and pos: "0 < nv" "0 < n" "2 \<le> T" "0 < k"
    and N: "normal_matrix PSI Su Q R = Inr N" and Z: "linalg_inv N = Inr Z" "is_mat k k Z"
  shows "\<exists>u. length u = m \<and>
     get_u_x param start_pose (Arr2 muQ) Q R Su Sx PSI =
       Inr (map (\<lambda>i. take n (drop (i * n) u)) [0..<T - 1],
            map (\<lambda>i. take nv (drop (i * nv)
              (map2 (+) (map (\<lambda>r. dot r start_pose) Sx) (map (\<lambda>r. dot r u) Su)))) [0..<T])"
proof -
  have Lp: "0 < L" and mp: "0 < m" using L m pos by simp_all
  have Pt: "is_mat k m (transpose_m PSI)" using PSI mp by (rule is_mat_transpose)
  have St: "is_mat m L (transpose_m Su)" using Su Lp by (rule is_mat_transpose)
  have x0: "reshape_col (int nv) start_pose = Inr (map (\<lambda>a. [a]) start_pose)"
    using sp by (simp add: reshape_col_def)
  from matmul_ok [OF Z(2) Pt pos(4) pos(4)] obtain c1
    where c1: "matmul Z (transpose_m PSI) = Inr c1" "is_mat k m c1" by blast
  from matmul_ok [OF c1(2) St pos(4) mp] obtain c2
    where c2: "matmul c1 (transpose_m Su) = Inr c2" "is_mat k L c2" by blast
  from matmul_ok [OF c2(2) Q pos(4) Lp] obtain c3
    where c3: "matmul c2 Q = Inr c3" "is_mat k L c3" by blast
  define sx where "sx = map (\<lambda>r. dot r start_pose) Sx"
  have lSx: "length Sx = L" and lSu: "length Su = L" and lc3: "length c3 = k"
    and lP: "length PSI = m"
    using Sx Su c3(2) PSI by (simp_all add: is_mat_iff)
  have lsx: "length sx = L" by (simp add: sx_def lSx)
  have e1: "matmul Sx (map (\<lambda>a. [a]) start_pose) = Inr (map (\<lambda>a. [a]) sx)"
    unfolding sx_def using Sx sp Lp pos(1) by (rule matmul_col)
  have mq: "muQ = map (\<lambda>a. [a]) (concat muQ)" using col_concat [OF muQ] by simp
  have lmq: "length (concat muQ) = L"
    using arg_cong [OF mq, of length] muQ by (simp add: is_mat_iff)
  define dv where "dv = map2 (-) (concat muQ) sx"
  have ldv: "length dv = L" by (simp add: dv_def lmq lsx)
  have e2: "broadcast_m (-) (as2d (Arr2 muQ)) (map (\<lambda>a. [a]) sx) = Inr (map (\<lambda>a. [a]) dv)"
  proof -
    have "concat muQ \<noteq> []" using lmq Lp by auto
    with broadcast_col [of "concat muQ" sx "(-)"] lmq lsx
    have "broadcast_m (-) (map (\<lambda>a. [a]) (concat muQ)) (map (\<lambda>a. [a]) sx) =
        Inr (map (\<lambda>a. [a]) dv)" by (simp add: dv_def)
    then show ?thesis using mq by (simp add: as2d_def)
  qed
  define w where "w = map (\<lambda>r. dot r dv) c3"
  have lw: "length w = k" by (simp add: w_def lc3)
  have e3: "matmul c3 (map (\<lambda>a. [a]) dv) = Inr (map (\<lambda>a. [a]) w)"
    unfolding w_def using c3(2) ldv pos(4) Lp by (rule matmul_col)
  define u where "u = map (\<lambda>r. dot r w) PSI"
  have lu: "length u = m" by (simp add: u_def lP)
  have e4: "matmul PSI (map (\<lambda>a. [a]) w) = Inr (map (\<lambda>a. [a]) u)"
    unfolding u_def using PSI lw mp pos(4) by (rule matmul_col)
  define su where "su = map (\<lambda>r. dot r u) Su"
  have lsu: "length su = L" by (simp add: su_def lSu)
  have e5: "matmul Su (map (\<lambda>a. [a]) u) = Inr (map (\<lambda>a. [a]) su)"
    unfolding su_def using Su lu Lp mp by (rule matmul_col)
  have e6: "broadcast_m (+) (map (\<lambda>a. [a]) sx) (map (\<lambda>a. [a]) su) =
      Inr (map (\<lambda>a. [a]) (map2 (+) sx su))"
  proof -
    have "sx \<noteq> []" using lsx Lp by auto
    then show ?thesis using lsx lsu by (intro broadcast_col) simp_all
  qed
  have lx: "length (map2 (+) sx su) = T * nv" using lsx lsu L by simp
  have e7: "reshape_rows (int nv) (concat (map (\<lambda>a. [a]) (map2 (+) sx su))) =
      Inr (map (\<lambda>i. take nv (drop (i * nv) (map2 (+) sx su))) [0..<T])"
    unfolding concat_col using lx pos(1) by (rule reshape_rows_ok)
  have e8: "reshape_rows (int n) (concat (map (\<lambda>a. [a]) u)) =
      Inr (map (\<lambda>i. take n (drop (i * n) u)) [0..<T - 1])"
    unfolding concat_col using lu pos(2) unfolding m by (rule reshape_rows_ok)
  have "get_u_x param start_pose (Arr2 muQ) Q R Su Sx PSI =
      Inr (map (\<lambda>i. take n (drop (i * n) u)) [0..<T - 1],
           map (\<lambda>i. take nv (drop (i * nv) (map2 (+) sx su))) [0..<T])"
    unfolding get_u_x_def
    by (simp only: pi x0 N Z(1) c1(1) c2(1) c3(1) e1 e2 e3 e4 e5 e6 e7 e8 ebind_Inr)
  then show ?thesis using lu unfolding sx_def su_def by blast
qed

lemma get_u_x_singular:
  assumes pi: "param_int param ''nb_var'' = Inr (int nv)"
    and sp: "length start_pose = nv"
    and N: "normal_matrix PSI Su Q R = Inr N" and s: "\<not> invertible N"
  shows "get_u_x param start_pose muQ Q R Su Sx PSI = Inl LinAlgError"
proof -
  have x0: "reshape_col (int nv) start_pose = Inr (map (\<lambda>a. [a]) start_pose)"
    using sp by (simp add: reshape_col_def)
  have "linalg_inv N = Inl LinAlgError"
  proof (cases "linalg_inv N")
    case (Inl e)
    then show ?thesis using linalg_inv_error by simp
  next
    case (Inr Y)
    from linalg_inv_sound [OF this] have "invertible N" unfolding invertible_def by blast
    with s show ?thesis by simp
  qed
  then show ?thesis unfolding get_u_x_def by (simp only: pi x0 N ebind_Inr ebind_Inl)
qed


lemma example_dynamics: "dynamics example_param = Inr ([[1, 1], [0, 1]], [[1 / 2], [1]])"
  by code_simp

lemma example_system:
  "set_dynamical_system example_param =
     Inr ([[0, 0], [0, 0], [1 / 2, 0], [1, 0], [3 / 2, 1 / 2], [1, 1]],
          [[1, 0], [0, 1], [1, 1], [0, 1], [1, 2], [0, 1]])"
  by code_simp

lemma invertibleI:
  assumes "is_mat n n N" and "is_mat n n Z"
    and "matmul Z N = Inr (eye n)" and "matmul N Z = Inr (eye n)"
  shows "invertible N"
proof -
  have "length N = n" using assms(1) by (simp add: is_mat_iff)
  with assms show ?thesis unfolding invertible_def by blast
qed

lemma example_invertible: "invertible [[11 / 2, 7 / 4], [7 / 4, 9 / 4]]"
proof (rule invertibleI [of 2 _ "[[36 / 149, - (28 / 149)], [- (28 / 149), 88 / 149]]"])
  show "is_mat 2 2 [[11 / 2, 7 / 4], [7 / 4, 9 / 4 :: real]]" by (simp add: is_mat_def)
  show "is_mat 2 2 [[36 / 149, - (28 / 149)], [- (28 / 149), 88 / 149 :: real]]"
    by (simp add: is_mat_def)
  show "matmul [[36 / 149, - (28 / 149)], [- (28 / 149), 88 / 149]]
      [[11 / 2, 7 / 4], [7 / 4, 9 / 4]] = Inr (eye 2)" by code_simp
  show "matmul [[11 / 2, 7 / 4], [7 / 4, 9 / 4]]
      [[36 / 149, - (28 / 149)], [- (28 / 149), 88 / 149]] = Inr (eye 2)" by code_simp
qed

lemma example_normal:
  "normal_matrix [[1, 0], [0, 1]] [[0, 0], [0, 0], [1 / 2, 0], [1, 0], [3 / 2, 1 / 2], [1, 1]]
     (eye 6) (eye 2) = Inr [[11 / 2, 7 / 4], [7 / 4, 9 / 4]]"
  by (simp add: normal_matrix_def matmul_def transpose_m_def vec_mat_def column_def dot_def
      ncols_def eye_def broadcast_m_def bdim_def stretch_def upt_rec)

lemma example_inverse:
  "linalg_inv [[11 / 2, 7 / 4], [7 / 4, 9 / 4]] =
     Inr [[36 / 149, - (28 / 149)], [- (28 / 149), 88 / 149]]"
  by code_simp

lemma example_nb:
  "param_int example_param ''nb_var'' = Inr 2" "param_int example_param ''nbVarPos'' = Inr 1"
  by (simp_all add: example_param_def param_int_def param_get_def)

lemma example_x0: "reshape_col 2 [0, 0] = Inr [[0], [0]]"
  by (simp add: reshape_col_def)

lemma example_solve:
  "get_u_x example_param [0, 0] (Arr2 [[0], [0], [1], [0], [2], [0]]) (eye 6) (eye 2)
     [[0, 0], [0, 0], [1 / 2, 0], [1, 0], [3 / 2, 1 / 2], [1, 1]]
     [[1, 0], [0, 1], [1, 1], [0, 1], [1, 2], [0, 1]] [[1, 0], [0, 1]] =
   Inr ([[98 / 149], [- (10 / 149)]],
        [[0, 0], [49 / 149, 98 / 149], [142 / 149, 88 / 149]])"
  unfolding get_u_x_def example_nb example_x0 example_normal example_inverse ebind_Inr
  by (simp add: reshape_rows_def matmul_def transpose_m_def vec_mat_def column_def dot_def
      ncols_def eye_def broadcast_m_def bdim_def stretch_def as2d_def upt_rec)


lemma example_singular:
  "get_u_x example_param [0, 0] (Arr2 [[0], [0], [1], [0], [2], [0]]) (eye 6) (eye 2)
     [[0, 0], [0, 0], [1 / 2, 0], [1, 0], [3 / 2, 1 / 2], [1, 1]]
     [[1, 0], [0, 1], [1, 1], [0, 1], [1, 2], [0, 1]] [[1, 1], [1, 1]] = Inl LinAlgError"
  by code_simp

lemma example_flat_reference:
  "get_u_x example_param [0, 0] (Arr1 [0, 0, 1, 0, 2, 0]) (eye 6) (eye 2)
     [[0, 0], [0, 0], [1 / 2, 0], [1, 0], [3 / 2, 1 / 2], [1, 1]]
     [[1, 0], [0, 1], [1, 1], [0, 1], [1, 2], [0, 1]] [[1, 0], [0, 1]] =
   Inr ([[0], [0], [102 / 149], [0], [204 / 149], [0], [0], [0], [20 / 149], [0], [40 / 149], [0]],
        [[0, 0], [0, 0], [0, 0], [0, 0], [0, 0], [0, 0], [0, 0], [51 / 149, 0], [102 / 149, 0],
         [0, 0], [102 / 149, 0], [204 / 149, 0], [0, 0], [163 / 149, 0], [326 / 149, 0], [0, 0],
         [122 / 149, 0], [244 / 149, 0]])"
  unfolding get_u_x_def example_nb example_x0 example_normal example_inverse ebind_Inr
  by (simp add: reshape_rows_def matmul_def transpose_m_def vec_mat_def column_def dot_def
      ncols_def eye_def broadcast_m_def bdim_def stretch_def as2d_def upt_rec)


end
